theory Spec2Isabelle
  imports Main "HOL-Library.AList"
begin

section \<open>JavaScript values\<close>

text \<open>
  The prompt handled by \<^verbatim>\<open>convertToOpenAICompatibleChatMessages\<close> is a tree of
  JavaScript values: messages and content parts are plain objects, \<^verbatim>\<open>providerMetadata\<close>
  holds JSON values, an image is a \<^verbatim>\<open>URL\<close> or a \<^verbatim>\<open>Uint8Array\<close>.
  An object is the list of its own enumerable properties in property order (insertion
  order for the names used here); numbers are integers.  The values form a tree: no
  object is referenced from two places of one prompt.
\<close>

datatype jsval =
    JUndefined
  | JNull
  | JBool bool
  | JNum int
  | JStr string
  | JArr "jsval list"
  | JObj "(string \<times> jsval) list"
  | JURL string
  | JBytes "nat list"

text \<open>Thrown exceptions. The two \<^verbatim>\<open>Error\<close>s of the exhaustiveness checks carry the
  offending value instead of its rendering in the message.\<close>

datatype error =
    TypeError
  | UnsupportedRole jsval
  | UnsupportedPart jsval
  | UnsupportedFunctionalityError string
  | UnsupportedModelVersionError string string string
  | Transient string
  | Cancelled

text \<open>A call that mutates its argument either returns or throws; both leave the
  argument in some state, which is what the constructor carries.\<close>

datatype 'a completion = Returned 'a | Threw 'a

fun map_completion :: "('a \<Rightarrow> 'b) \<Rightarrow> 'a completion \<Rightarrow> 'b completion" where
  "map_completion f (Returned x) = Returned (f x)"
| "map_completion f (Threw x) = Threw (f x)"

fun state_of :: "'a completion \<Rightarrow> 'a" where
  "state_of (Returned x) = x"
| "state_of (Threw x) = x"

subsection \<open>Property access\<close>

fun nullish :: "jsval \<Rightarrow> bool" where
  "nullish JUndefined = True"
| "nullish JNull = True"
| "nullish _ = False"

fun truthy :: "jsval \<Rightarrow> bool" where
  "truthy JUndefined = False"
| "truthy JNull = False"
| "truthy (JBool b) = b"
| "truthy (JNum n) = (n \<noteq> 0)"
| "truthy (JStr s) = (s \<noteq> [])"
| "truthy _ = True"

text \<open>Decimal rendering of an array index, the name of an indexed property.\<close>

function index_key :: "nat \<Rightarrow> string" where
  "index_key n =
     (if n < 10 then [''0123456789'' ! n]
      else index_key (n div 10) @ [''0123456789'' ! (n mod 10)])"
  by pat_completeness auto
termination
  by (relation "measure id") auto

declare index_key.simps [simp del]

definition indexed :: "jsval list \<Rightarrow> (string \<times> jsval) list" where
  "indexed xs = zip (map index_key [0..<length xs]) xs"

text \<open>The own enumerable string-keyed properties of a value (of its wrapper object,
  for a primitive): what \<^verbatim>\<open>Object.assign\<close>, \<^verbatim>\<open>Object.keys\<close>,
  \<^verbatim>\<open>Object.values\<close> and a rest pattern see.\<close>

fun own_entries :: "jsval \<Rightarrow> (string \<times> jsval) list" where
  "own_entries (JObj fs) = fs"
| "own_entries (JArr xs) = indexed xs"
| "own_entries (JStr s) = indexed (map (\<lambda>c. JStr [c]) s)"
| "own_entries (JBytes bs) = indexed (map (\<lambda>b. JNum (int b)) bs)"
| "own_entries _ = []"

definition lookup :: "(string \<times> jsval) list \<Rightarrow> string \<Rightarrow> jsval" where
  "lookup fs k = (case map_of fs k of None \<Rightarrow> JUndefined | Some v \<Rightarrow> v)"

text \<open>\<^verbatim>\<open>v?.k\<close> for the property names of this program, none of which is an index,
  \<^verbatim>\<open>length\<close> or a method: only an object has such a property.\<close>

fun get_prop :: "jsval \<Rightarrow> string \<Rightarrow> jsval" where
  "get_prop (JObj fs) k = lookup fs k"
| "get_prop _ k = JUndefined"

text \<open>\<^verbatim>\<open>delete v.k\<close> on a value that is not null or undefined.\<close>

fun delete_prop :: "jsval \<Rightarrow> string \<Rightarrow> jsval" where
  "delete_prop (JObj fs) k = JObj (AList.delete k fs)"
| "delete_prop v k = v"

text \<open>\<^verbatim>\<open>Object.assign(target, src)\<close> and the spread \<^verbatim>\<open>{...target, ...src}\<close>: each
  property of \<^verbatim>\<open>src\<close> in turn overwrites the property of that name or is added last.\<close>

definition spread :: "(string \<times> jsval) list \<Rightarrow> (string \<times> jsval) list \<Rightarrow> (string \<times> jsval) list" where
  "spread target src = fold (\<lambda>(k, v). AList.update k v) src target"

text \<open>The rest pattern \<^verbatim>\<open>const { k1, ..., kn, ...rest } = v\<close>.\<close>

definition rest_of :: "jsval \<Rightarrow> string list \<Rightarrow> (string \<times> jsval) list" where
  "rest_of v ks = filter (\<lambda>(k, x). k \<notin> set ks) (own_entries v)"

text \<open>\<^verbatim>\<open>for (const x of v)\<close>: the elements, or nothing when \<^verbatim>\<open>v\<close> is not iterable.\<close>

fun iterate :: "jsval \<Rightarrow> jsval list option" where
  "iterate (JArr xs) = Some xs"
| "iterate (JStr s) = Some (map (\<lambda>c. JStr [c]) s)"
| "iterate (JBytes bs) = Some (map (\<lambda>b. JNum (int b)) bs)"
| "iterate _ = None"

text \<open>\<^verbatim>\<open>v.length\<close> and \<^verbatim>\<open>v[0]\<close> on a value that is not null or undefined.\<close>

fun length_prop :: "jsval \<Rightarrow> jsval" where
  "length_prop (JArr xs) = JNum (int (length xs))"
| "length_prop (JStr s) = JNum (int (length s))"
| "length_prop (JBytes bs) = JNum (int (length bs))"
| "length_prop (JObj fs) = lookup fs ''length''"
| "length_prop _ = JUndefined"

fun first_elem :: "jsval \<Rightarrow> jsval" where
  "first_elem (JArr xs) = (case xs of [] \<Rightarrow> JUndefined | x # _ \<Rightarrow> x)"
| "first_elem (JStr s) = (case s of [] \<Rightarrow> JUndefined | c # _ \<Rightarrow> JStr [c])"
| "first_elem (JBytes bs) = (case bs of [] \<Rightarrow> JUndefined | b # _ \<Rightarrow> JNum (int b))"
| "first_elem (JObj fs) = lookup fs ''0''"
| "first_elem _ = JUndefined"

text \<open>\<^verbatim>\<open>xs.forEach(f)\<close> for an \<^verbatim>\<open>f\<close> that mutates the element it is given: the
  elements are visited in order and the first exception ends the visit.\<close>

fun forEach :: "('a \<Rightarrow> 'a completion) \<Rightarrow> 'a list \<Rightarrow> 'a list completion" where
  "forEach f [] = Returned []"
| "forEach f (x # xs) =
     (case f x of
        Threw x' \<Rightarrow> Threw (x' # xs)
      | Returned x' \<Rightarrow> map_completion ((#) x') (forEach f xs))"

lemma forEach_cong [fundef_cong]:
  "xs = ys \<Longrightarrow> (\<And>x. x \<in> set ys \<Longrightarrow> f x = g x) \<Longrightarrow> forEach f xs = forEach g ys"
  by (induction ys arbitrary: xs) (auto split: completion.splits)

section \<open>Hoisting of provider metadata\<close>

text \<open>
  The first statement of \<^verbatim>\<open>findAndHoistMetadata(obj)\<close>, on the properties of an
  object: when \<^verbatim>\<open>obj?.providerMetadata?.openaiCompatible\<close> is truthy, its properties
  are assigned to \<^verbatim>\<open>obj\<close>, it is deleted from \<^verbatim>\<open>obj.providerMetadata\<close>, and
  \<^verbatim>\<open>obj.providerMetadata\<close> is deleted once it has no key left.  The assignment may
  have replaced \<^verbatim>\<open>obj.providerMetadata\<close>; \<^verbatim>\<open>delete\<close> on null throws.
\<close>

definition hoist_own :: "(string \<times> jsval) list \<Rightarrow> (string \<times> jsval) list completion" where
  "hoist_own fs =
     (let oc = get_prop (lookup fs ''providerMetadata'') ''openaiCompatible'' in
      if truthy oc then
        (let fs1 = spread fs (own_entries oc);
             pm = lookup fs1 ''providerMetadata''
         in if nullish pm then Threw fs1
            else
              (let pm' = delete_prop pm ''openaiCompatible'';
                   fs2 = AList.update ''providerMetadata'' pm' fs1
               in if own_entries pm' = [] then Returned (AList.delete ''providerMetadata'' fs2)
                  else Returned fs2))
      else Returned fs)"

text \<open>Nesting depth, the measure under which the hoisting terminates.\<close>

fun height :: "jsval \<Rightarrow> nat" where
  "height (JArr xs) = Suc (Max (insert 0 (set (map height xs))))"
| "height (JObj fs) = Suc (Max (insert 0 (set (map (\<lambda>(k, v). height v) fs))))"
| "height _ = 0"

lemma height_elem: "x \<in> set xs \<Longrightarrow> height x < height (JArr xs)"
  by (simp add: less_Suc_eq_le)

lemma height_field: "(k, v) \<in> set fs \<Longrightarrow> height v < height (JObj fs)"
proof -
  assume "(k, v) \<in> set fs"
  then have "height v \<in> set (map (\<lambda>(k, v). height v) fs)"
    by force
  then have "height v \<le> Max (insert 0 (set (map (\<lambda>(k, v). height v) fs)))"
    by (intro Max_ge) auto
  then show ?thesis by simp
qed

lemma set_update_subset: "set (AList.update k v al) \<subseteq> insert (k, v) (set al)"
  by (induction al) auto

lemma set_delete_subset: "set (AList.delete k al) \<subseteq> set al"
  by (induction al) auto

lemma set_spread_subset: "set (spread t s) \<subseteq> set t \<union> set s"
proof (induction s arbitrary: t)
  case Nil
  then show ?case by (simp add: spread_def)
next
  case (Cons a s)
  obtain k v where a: "a = (k, v)" by (cases a)
  have "spread t (a # s) = spread (AList.update k v t) s"
    by (simp add: spread_def a)
  moreover have "set (spread (AList.update k v t) s) \<subseteq> set (AList.update k v t) \<union> set s"
    by (rule Cons.IH)
  ultimately show ?case
    using set_update_subset [of k v t] a by auto
qed

lemma set_indexed: "(k, v) \<in> set (indexed xs) \<Longrightarrow> v \<in> set xs"
  by (auto simp: indexed_def dest: set_zip_rightD)

lemma height_own_entries: "(k, v) \<in> set (own_entries x) \<Longrightarrow> height v \<le> height x"
proof (cases x)
  case (JObj fs)
  assume "(k, v) \<in> set (own_entries x)"
  with JObj show ?thesis using height_field [of k v fs] by simp
next
  case (JArr xs)
  assume "(k, v) \<in> set (own_entries x)"
  with JArr show ?thesis using height_elem [of v xs] set_indexed [of k v xs] by simp
qed (auto dest!: set_indexed)

lemma height_lookup: "height (lookup fs k) < height (JObj fs)"
proof (cases "map_of fs k")
  case None
  then show ?thesis by (simp add: lookup_def)
next
  case (Some v)
  then have "(k, v) \<in> set fs" by (rule map_of_SomeD)
  then show ?thesis using Some height_field [of k v fs] by (simp add: lookup_def)
qed

lemma height_get_prop: "height (get_prop x k) \<le> height x"
  using height_lookup by (cases x) (auto simp: less_imp_le)

lemma height_delete_prop: "height (delete_prop x k) \<le> height x"
proof (cases x)
  case (JObj fs)
  have "set (map (\<lambda>(k, v). height v) (AList.delete k fs)) \<subseteq> set (map (\<lambda>(k, v). height v) fs)"
    using set_delete_subset [of k fs] by auto
  then have "Max (insert 0 (set (map (\<lambda>(k, v). height v) (AList.delete k fs))))
      \<le> Max (insert 0 (set (map (\<lambda>(k, v). height v) fs)))"
    by (intro Max_mono) auto
  with JObj show ?thesis by simp
qed auto

lemma height_hoist_own:
  assumes "(k, v) \<in> set (state_of (hoist_own fs))"
  shows "height v < height (JObj fs)"
proof -
  define pm0 where "pm0 = lookup fs ''providerMetadata''"
  define oc where "oc = get_prop pm0 ''openaiCompatible''"
  define fs1 where "fs1 = spread fs (own_entries oc)"
  define pm where "pm = lookup fs1 ''providerMetadata''"
  define pm' where "pm' = delete_prop pm ''openaiCompatible''"
  have oc_le: "height oc < height (JObj fs)"
    using height_get_prop [of pm0 "''openaiCompatible''"] height_lookup [of fs "''providerMetadata''"]
    by (simp add: oc_def pm0_def)
  have fs1: "height w < height (JObj fs)" if "(j, w) \<in> set fs1" for j w
  proof -
    from that set_spread_subset [of fs "own_entries oc"]
    consider "(j, w) \<in> set fs" | "(j, w) \<in> set (own_entries oc)"
      by (auto simp: fs1_def)
    then show ?thesis
    proof cases
      case 1
      then show ?thesis by (rule height_field)
    next
      case 2
      then show ?thesis using height_own_entries [of j w oc] oc_le by simp
    qed
  qed
  have pm: "height pm < height (JObj fs)"
  proof (cases "map_of fs1 ''providerMetadata''")
    case None
    then show ?thesis by (simp add: pm_def lookup_def)
  next
    case (Some w)
    then have "(''providerMetadata'', w) \<in> set fs1" by (rule map_of_SomeD)
    then show ?thesis using fs1 Some by (simp add: pm_def lookup_def)
  qed
  have pm': "height pm' < height (JObj fs)"
    using height_delete_prop [of pm "''openaiCompatible''"] pm by (simp add: pm'_def)
  have fs2: "height w < height (JObj fs)"
    if "(j, w) \<in> set (AList.update ''providerMetadata'' pm' fs1)" for j w
    using that set_update_subset [of "''providerMetadata''" pm' fs1] fs1 pm' by auto
  have fs3: "height w < height (JObj fs)"
    if "(j, w) \<in> set (AList.delete ''providerMetadata'' (AList.update ''providerMetadata'' pm' fs1))" for j w
    using that set_delete_subset [of "''providerMetadata''" "AList.update ''providerMetadata'' pm' fs1"] fs2
    by auto
  from assms show ?thesis
    unfolding hoist_own_def Let_def
    using fs1 fs2 fs3 height_field [of k v fs]
    by (auto simp: oc_def pm0_def fs1_def pm_def pm'_def split: if_splits)
qed

function (sequential) findAndHoistMetadata :: "jsval \<Rightarrow> jsval completion" where
  "findAndHoistMetadata (JObj fs) =
     (case hoist_own fs of
        Threw fs' \<Rightarrow> Threw (JObj fs')
      | Returned fs' \<Rightarrow>
          map_completion JObj
            (forEach (\<lambda>(k, v). map_completion (Pair k) (findAndHoistMetadata v)) fs'))"
| "findAndHoistMetadata (JArr xs) = map_completion JArr (forEach findAndHoistMetadata xs)"
| "findAndHoistMetadata v = Returned v"
  by pat_completeness auto
termination
proof (relation "measure height")
  show "wf (measure height)" by simp
next
  fix fs fs' :: "(string \<times> jsval) list" and x :: "string \<times> jsval" and k v
  assume "hoist_own fs = Returned fs'" "x \<in> set fs'" "(k, v) = x"
  then have "(k, v) \<in> set (state_of (hoist_own fs))" by simp
  then show "(v, JObj fs) \<in> measure height"
    using height_hoist_own by simp
next
  fix xs :: "jsval list" and x
  assume "x \<in> set xs"
  then show "(x, JArr xs) \<in> measure height"
    using height_elem by simp
qed

section \<open>The wire normalizer\<close>

text \<open>
  Library functions the normalizer calls, taken as parameters:
  \<^verbatim>\<open>JSON.stringify\<close> (which returns \<^verbatim>\<open>undefined\<close> for \<^verbatim>\<open>undefined\<close>),
  \<^verbatim>\<open>convertUint8ArrayToBase64\<close> of \<^verbatim>\<open>@ai-sdk/provider-utils\<close>, and the string
  conversion that \<^verbatim>\<open>+=\<close> and a template literal apply to a value that is not a string.
\<close>

record builtins =
  JSON_stringify :: "jsval \<Rightarrow> jsval"
  convertUint8ArrayToBase64 :: "jsval \<Rightarrow> string"
  ToString :: "jsval \<Rightarrow> string"

fun str_of :: "builtins \<Rightarrow> jsval \<Rightarrow> string" where
  "str_of env (JStr s) = s"
| "str_of env v = ToString env v"

text \<open>The \<^verbatim>\<open>url\<close> of an image part:
  \<^verbatim>\<open>image instanceof URL ? image.toString() : `data:${mimeType ?? 'image/jpeg'};base64,${convertUint8ArrayToBase64(image)}`\<close>.\<close>

definition image_url :: "builtins \<Rightarrow> jsval \<Rightarrow> jsval \<Rightarrow> jsval" where
  "image_url env img mimeType =
     (case img of
        JURL href \<Rightarrow> JStr href
      | _ \<Rightarrow> JStr (''data:'' @ str_of env (if nullish mimeType then JStr ''image/jpeg'' else mimeType)
                 @ '';base64,'' @ convertUint8ArrayToBase64 env img))"

text \<open>The callback of \<^verbatim>\<open>content.map\<close> in the user case. The inner \<^verbatim>\<open>switch\<close> has no
  default: for any other \<^verbatim>\<open>type\<close> the callback returns \<^verbatim>\<open>undefined\<close>.\<close>

definition user_part :: "builtins \<Rightarrow> jsval \<Rightarrow> error + jsval" where
  "user_part env part =
     (if nullish part then Inl TypeError
      else
        (let type = get_prop part ''type'' in
         if type = JStr ''text'' then
           Inr (JObj (spread [(''type'', type), (''text'', get_prop part ''text'')]
                  (rest_of part [''type'', ''text''])))
         else if type = JStr ''image'' then
           Inr (JObj (spread
                  [(''type'', JStr ''image_url''),
                   (''image_url'',
                      JObj [(''url'', image_url env (get_prop part ''image'') (get_prop part ''mimeType''))])]
                  (rest_of part [''type'', ''image'', ''mimeType''])))
         else if type = JStr ''file'' then
           Inl (UnsupportedFunctionalityError ''File content parts in user messages'')
         else Inr JUndefined))"

text \<open>\<^verbatim>\<open>xs.map(f)\<close> for a callback that may throw: the first exception ends the map.\<close>

fun map_throwing :: "('a \<Rightarrow> error + 'b) \<Rightarrow> 'a list \<Rightarrow> error + 'b list" where
  "map_throwing f [] = Inr []"
| "map_throwing f (x # xs) =
     (case f x of
        Inl e \<Rightarrow> Inl e
      | Inr y \<Rightarrow> (case map_throwing f xs of Inl e \<Rightarrow> Inl e | Inr ys \<Rightarrow> Inr (y # ys)))"

text \<open>\<^verbatim>\<open>content.map(part => ...)\<close>: an array is mapped; a \<^verbatim>\<open>Uint8Array\<close> is mapped to
  a \<^verbatim>\<open>Uint8Array\<close> (the callback returns \<^verbatim>\<open>undefined\<close> for a number, stored as 0);
  nothing else has a \<^verbatim>\<open>map\<close> method.\<close>

fun map_content :: "builtins \<Rightarrow> jsval \<Rightarrow> error + jsval" where
  "map_content env (JArr parts) =
     (case map_throwing (user_part env) parts of Inl e \<Rightarrow> Inl e | Inr ys \<Rightarrow> Inr (JArr ys))"
| "map_content env (JBytes bs) = Inr (JBytes (map (\<lambda>b. 0) bs))"
| "map_content env _ = Inl TypeError"

text \<open>The user case: \<^verbatim>\<open>content.length === 1 && content[0].type === 'text'\<close> selects the
  collapsed form \<^verbatim>\<open>{ role: 'user', content: text, ...rest, ...contentRest }\<close>.\<close>

definition user_message :: "builtins \<Rightarrow> jsval \<Rightarrow> (string \<times> jsval) list \<Rightarrow> error + jsval list" where
  "user_message env content rest =
     (if nullish content then Inl TypeError
      else if length_prop content = JNum 1 \<and> nullish (first_elem content) then Inl TypeError
      else if length_prop content = JNum 1 \<and> get_prop (first_elem content) ''type'' = JStr ''text'' then
        Inr [JObj (spread (spread [(''role'', JStr ''user''), (''content'', get_prop (first_elem content) ''text'')] rest)
               (rest_of (first_elem content) [''text'', ''type'']))]
      else
        (case map_content env content of
           Inl e \<Rightarrow> Inl e
         | Inr parts \<Rightarrow> Inr [JObj (spread [(''role'', JStr ''user''), (''content'', parts)] rest)]))"

text \<open>The loop of the assistant case over the content parts, with its two variables
  \<^verbatim>\<open>text\<close> and \<^verbatim>\<open>toolCalls\<close>.\<close>

fun assistant_parts :: "builtins \<Rightarrow> string \<Rightarrow> jsval list \<Rightarrow> jsval list \<Rightarrow> error + (string \<times> jsval list)" where
  "assistant_parts env text toolCalls [] = Inr (text, toolCalls)"
| "assistant_parts env text toolCalls (part # parts) =
     (if nullish part then Inl TypeError
      else if get_prop part ''type'' = JStr ''text'' then
        assistant_parts env (text @ str_of env (get_prop part ''text'')) toolCalls parts
      else if get_prop part ''type'' = JStr ''tool-call'' then
        assistant_parts env text
          (toolCalls @
            [JObj (spread
               [(''id'', get_prop part ''toolCallId''),
                (''type'', JStr ''function''),
                (''function'',
                   JObj [(''name'', get_prop part ''toolName''),
                         (''arguments'', JSON_stringify env (get_prop part ''args''))])]
               (rest_of part [''type'', ''toolCallId'', ''toolName'', ''args'']))])
          parts
      else Inl (UnsupportedPart part))"

definition assistant_message :: "builtins \<Rightarrow> jsval \<Rightarrow> (string \<times> jsval) list \<Rightarrow> error + jsval list" where
  "assistant_message env content rest =
     (case iterate content of
        None \<Rightarrow> Inl TypeError
      | Some parts \<Rightarrow>
          (case assistant_parts env [] [] parts of
             Inl e \<Rightarrow> Inl e
           | Inr (text, toolCalls) \<Rightarrow>
               Inr [JObj (spread
                      [(''role'', JStr ''assistant''),
                       (''content'', JStr text),
                       (''tool_calls'', if length toolCalls > 0 then JArr toolCalls else JUndefined)]
                      rest)]))"

text \<open>The loop of the tool case: one message is pushed per tool response,
  \<^verbatim>\<open>{ role: 'tool', tool_call_id: toolCallId, content: JSON.stringify(result), ...toolResponseRest, ...rest }\<close>.\<close>

fun tool_responses :: "builtins \<Rightarrow> (string \<times> jsval) list \<Rightarrow> jsval list \<Rightarrow> error + jsval list" where
  "tool_responses env rest [] = Inr []"
| "tool_responses env rest (toolResponse # others) =
     (if nullish toolResponse then Inl TypeError
      else
        (case tool_responses env rest others of
           Inl e \<Rightarrow> Inl e
         | Inr ms \<Rightarrow>
             Inr (JObj (spread
                    (spread
                       [(''role'', JStr ''tool''),
                        (''tool_call_id'', get_prop toolResponse ''toolCallId''),
                        (''content'', JSON_stringify env (get_prop toolResponse ''result''))]
                       (rest_of toolResponse [''type'', ''content'', ''toolCallId'', ''toolName'', ''result'']))
                    rest)
                  # ms)))"

definition tool_message :: "builtins \<Rightarrow> jsval \<Rightarrow> (string \<times> jsval) list \<Rightarrow> error + jsval list" where
  "tool_message env content rest =
     (case iterate content of
        None \<Rightarrow> Inl TypeError
      | Some responses \<Rightarrow> tool_responses env rest responses)"

text \<open>One turn of the main loop: the messages pushed for
  \<^verbatim>\<open>const { role, content, ...rest }\<close> of the (already hoisted) prompt.\<close>

definition convert_message :: "builtins \<Rightarrow> jsval \<Rightarrow> error + jsval list" where
  "convert_message env message =
     (if nullish message then Inl TypeError
      else
        (let role = get_prop message ''role'';
             content = get_prop message ''content'';
             rest = rest_of message [''role'', ''content'']
         in if role = JStr ''system'' then
              Inr [JObj (spread [(''role'', JStr ''system''), (''content'', content)] rest)]
            else if role = JStr ''user'' then user_message env content rest
            else if role = JStr ''assistant'' then assistant_message env content rest
            else if role = JStr ''tool'' then tool_message env content rest
            else Inl (UnsupportedRole role)))"

fun convert_loop :: "builtins \<Rightarrow> jsval list \<Rightarrow> jsval list \<Rightarrow> error + jsval list" where
  "convert_loop env messages [] = Inr messages"
| "convert_loop env messages (message # prompt) =
     (case convert_message env message of
        Inl e \<Rightarrow> Inl e
      | Inr pushed \<Rightarrow> convert_loop env (messages @ pushed) prompt)"

text \<open>
  \<^verbatim>\<open>convertToOpenAICompatibleChatMessages(prompt)\<close>: first every message of the
  prompt is hoisted in place, then the loop builds the wire messages from the hoisted
  prompt.  The result is the prompt as the call leaves it, and the returned array or
  the exception.
\<close>

definition convertToOpenAICompatibleChatMessages ::
    "builtins \<Rightarrow> jsval list \<Rightarrow> jsval list \<times> (error + jsval list)" where
  "convertToOpenAICompatibleChatMessages env prompt =
     (case forEach findAndHoistMetadata prompt of
        Threw prompt' \<Rightarrow> (prompt', Inl TypeError)
      | Returned prompt' \<Rightarrow> (prompt', convert_loop env [] prompt'))"

section \<open>The version that reads the metadata\<close>

text \<open>
  The sources hold a second version of the normalizer (the first half of
  \<^verbatim>\<open>src/unnamed/part_003\<close>): \<^verbatim>\<open>getOpenAIMetadata\<close> reads
  \<^verbatim>\<open>message?.providerMetadata?.openaiCompatible ?? {}\<close> and the result is spread into
  the wire object; the prompt is not written to, so the function is a function of the prompt
  alone.  The single text part and the tool responses take the metadata of the part only.
\<close>

definition getOpenAIMetadata :: "jsval \<Rightarrow> (string \<times> jsval) list" where
  "getOpenAIMetadata message =
     (let oc = get_prop (get_prop message ''providerMetadata'') ''openaiCompatible''
      in if nullish oc then [] else own_entries oc)"

definition reading_user_part :: "builtins \<Rightarrow> jsval \<Rightarrow> error + jsval" where
  "reading_user_part env part =
     (if nullish part then Inl TypeError
      else if get_prop part ''type'' = JStr ''text'' then
        Inr (JObj (spread [(''type'', JStr ''text''), (''text'', get_prop part ''text'')]
               (getOpenAIMetadata part)))
      else if get_prop part ''type'' = JStr ''image'' then
        Inr (JObj (spread
               [(''type'', JStr ''image_url''),
                (''image_url'',
                   JObj [(''url'', image_url env (get_prop part ''image'') (get_prop part ''mimeType''))])]
               (getOpenAIMetadata part)))
      else if get_prop part ''type'' = JStr ''file'' then
        Inl (UnsupportedFunctionalityError ''File content parts in user messages'')
      else Inr JUndefined)"

fun reading_map_content :: "builtins \<Rightarrow> jsval \<Rightarrow> error + jsval" where
  "reading_map_content env (JArr parts) =
     (case map_throwing (reading_user_part env) parts of Inl e \<Rightarrow> Inl e | Inr ys \<Rightarrow> Inr (JArr ys))"
| "reading_map_content env (JBytes bs) = Inr (JBytes (map (\<lambda>b. 0) bs))"
| "reading_map_content env _ = Inl TypeError"

definition reading_user_message :: "builtins \<Rightarrow> jsval \<Rightarrow> (string \<times> jsval) list \<Rightarrow> error + jsval list" where
  "reading_user_message env content metadata =
     (if nullish content then Inl TypeError
      else if length_prop content = JNum 1 \<and> nullish (first_elem content) then Inl TypeError
      else if length_prop content = JNum 1 \<and> get_prop (first_elem content) ''type'' = JStr ''text'' then
        Inr [JObj (spread [(''role'', JStr ''user''), (''content'', get_prop (first_elem content) ''text'')]
               (getOpenAIMetadata (first_elem content)))]
      else
        (case reading_map_content env content of
           Inl e \<Rightarrow> Inl e
         | Inr parts \<Rightarrow> Inr [JObj (spread [(''role'', JStr ''user''), (''content'', parts)] metadata)]))"

fun reading_assistant_parts :: "builtins \<Rightarrow> string \<Rightarrow> jsval list \<Rightarrow> jsval list \<Rightarrow> error + (string \<times> jsval list)" where
  "reading_assistant_parts env text toolCalls [] = Inr (text, toolCalls)"
| "reading_assistant_parts env text toolCalls (part # parts) =
     (if nullish part then Inl TypeError
      else if get_prop part ''type'' = JStr ''text'' then
        reading_assistant_parts env (text @ str_of env (get_prop part ''text'')) toolCalls parts
      else if get_prop part ''type'' = JStr ''tool-call'' then
        reading_assistant_parts env text
          (toolCalls @
            [JObj (spread
               [(''id'', get_prop part ''toolCallId''),
                (''type'', JStr ''function''),
                (''function'',
                   JObj [(''name'', get_prop part ''toolName''),
                         (''arguments'', JSON_stringify env (get_prop part ''args''))])]
               (getOpenAIMetadata part))])
          parts
      else Inl (UnsupportedPart part))"

definition reading_assistant_message :: "builtins \<Rightarrow> jsval \<Rightarrow> (string \<times> jsval) list \<Rightarrow> error + jsval list" where
  "reading_assistant_message env content metadata =
     (case iterate content of
        None \<Rightarrow> Inl TypeError
      | Some parts \<Rightarrow>
          (case reading_assistant_parts env [] [] parts of
             Inl e \<Rightarrow> Inl e
           | Inr (text, toolCalls) \<Rightarrow>
               Inr [JObj (spread
                      [(''role'', JStr ''assistant''),
                       (''content'', JStr text),
                       (''tool_calls'', if length toolCalls > 0 then JArr toolCalls else JUndefined)]
                      metadata)]))"

fun reading_tool_responses :: "builtins \<Rightarrow> jsval list \<Rightarrow> error + jsval list" where
  "reading_tool_responses env [] = Inr []"
| "reading_tool_responses env (toolResponse # others) =
     (if nullish toolResponse then Inl TypeError
      else
        (case reading_tool_responses env others of
           Inl e \<Rightarrow> Inl e
         | Inr ms \<Rightarrow>
             Inr (JObj (spread
                    [(''role'', JStr ''tool''),
                     (''tool_call_id'', get_prop toolResponse ''toolCallId''),
                     (''content'', JSON_stringify env (get_prop toolResponse ''result''))]
                    (getOpenAIMetadata toolResponse))
                  # ms)))"

definition reading_tool_message :: "builtins \<Rightarrow> jsval \<Rightarrow> error + jsval list" where
  "reading_tool_message env content =
     (case iterate content of
        None \<Rightarrow> Inl TypeError
      | Some responses \<Rightarrow> reading_tool_responses env responses)"

definition reading_convert_message :: "builtins \<Rightarrow> jsval \<Rightarrow> error + jsval list" where
  "reading_convert_message env message =
     (if nullish message then Inl TypeError
      else
        (let metadata = getOpenAIMetadata message;
             role = get_prop message ''role'';
             content = get_prop message ''content''
         in if role = JStr ''system'' then
              Inr [JObj (spread [(''role'', JStr ''system''), (''content'', content)] metadata)]
            else if role = JStr ''user'' then reading_user_message env content metadata
            else if role = JStr ''assistant'' then reading_assistant_message env content metadata
            else if role = JStr ''tool'' then reading_tool_message env content
            else Inl (UnsupportedRole role)))"

fun reading_convert_loop :: "builtins \<Rightarrow> jsval list \<Rightarrow> jsval list \<Rightarrow> error + jsval list" where
  "reading_convert_loop env messages [] = Inr messages"
| "reading_convert_loop env messages (message # prompt) =
     (case reading_convert_message env message of
        Inl e \<Rightarrow> Inl e
      | Inr pushed \<Rightarrow> reading_convert_loop env (messages @ pushed) prompt)"

definition convertToOpenAICompatibleChatMessages_reading :: "builtins \<Rightarrow> jsval list \<Rightarrow> error + jsval list" where
  "convertToOpenAICompatibleChatMessages_reading env prompt = reading_convert_loop env [] prompt"

section \<open>Typed prompts\<close>

text \<open>
  Modelled from the spec: the types of a prompt (\<^verbatim>\<open>LanguageModelV1Prompt\<close> of
  \<^verbatim>\<open>@ai-sdk/provider\<close>) are not among the sources.  Section 3 of the spec: a message has
  a role among system, user, assistant and tool; a system message holds a string, a user
  message text, image and file parts, an assistant message text and tool-call parts, a tool
  message tool-result parts; every message and every part may carry provider metadata, a
  mapping from a namespace to a bag of keys and values.  The fields of a part are the ones the
  normalizer reads; an object lists them in the order below, the metadata last.
\<close>

type_synonym bag = "(string \<times> jsval) list"

type_synonym metadata = "(string \<times> bag) list option"

datatype image_data = ImageURL string | ImageBytes "nat list"

fun js_of_image :: "image_data \<Rightarrow> jsval" where
  "js_of_image (ImageURL href) = JURL href"
| "js_of_image (ImageBytes bs) = JBytes bs"

datatype user_part =
    UserText string metadata
  | UserImage image_data "string option" metadata
  | UserFile jsval string metadata

datatype assistant_part =
    AssistantText string metadata
  | ToolCall string string jsval metadata

datatype tool_result = ToolResult string string jsval metadata

datatype message =
    System string metadata
  | User "user_part list" metadata
  | Assistant "assistant_part list" metadata
  | Tool "tool_result list" metadata

text \<open>The \<^verbatim>\<open>providerMetadata\<close> property of an object, when it has one.\<close>

definition metadata_field :: "metadata \<Rightarrow> (string \<times> jsval) list" where
  "metadata_field md =
     (case md of
        None \<Rightarrow> []
      | Some namespaces \<Rightarrow> [(''providerMetadata'', JObj (map (\<lambda>(ns, b). (ns, JObj b)) namespaces))])"

fun user_part_fields :: "user_part \<Rightarrow> (string \<times> jsval) list" where
  "user_part_fields (UserText t md) = [(''type'', JStr ''text''), (''text'', JStr t)]"
| "user_part_fields (UserImage img mimeType md) =
     [(''type'', JStr ''image''), (''image'', js_of_image img)]
     @ (case mimeType of None \<Rightarrow> [] | Some m \<Rightarrow> [(''mimeType'', JStr m)])"
| "user_part_fields (UserFile d mimeType md) =
     [(''type'', JStr ''file''), (''data'', d), (''mimeType'', JStr mimeType)]"

fun user_part_metadata :: "user_part \<Rightarrow> metadata" where
  "user_part_metadata (UserText t md) = md"
| "user_part_metadata (UserImage img mimeType md) = md"
| "user_part_metadata (UserFile d mimeType md) = md"

fun assistant_part_fields :: "assistant_part \<Rightarrow> (string \<times> jsval) list" where
  "assistant_part_fields (AssistantText t md) = [(''type'', JStr ''text''), (''text'', JStr t)]"
| "assistant_part_fields (ToolCall toolCallId toolName args md) =
     [(''type'', JStr ''tool-call''), (''toolCallId'', JStr toolCallId),
      (''toolName'', JStr toolName), (''args'', args)]"

fun assistant_part_metadata :: "assistant_part \<Rightarrow> metadata" where
  "assistant_part_metadata (AssistantText t md) = md"
| "assistant_part_metadata (ToolCall toolCallId toolName args md) = md"

fun tool_result_fields :: "tool_result \<Rightarrow> (string \<times> jsval) list" where
  "tool_result_fields (ToolResult toolCallId toolName result md) =
     [(''type'', JStr ''tool-result''), (''toolCallId'', JStr toolCallId),
      (''toolName'', JStr toolName), (''result'', result)]"

fun tool_result_metadata :: "tool_result \<Rightarrow> metadata" where
  "tool_result_metadata (ToolResult toolCallId toolName result md) = md"

definition js_of_user_part :: "user_part \<Rightarrow> jsval" where
  "js_of_user_part p = JObj (user_part_fields p @ metadata_field (user_part_metadata p))"

definition js_of_assistant_part :: "assistant_part \<Rightarrow> jsval" where
  "js_of_assistant_part p = JObj (assistant_part_fields p @ metadata_field (assistant_part_metadata p))"

definition js_of_tool_result :: "tool_result \<Rightarrow> jsval" where
  "js_of_tool_result p = JObj (tool_result_fields p @ metadata_field (tool_result_metadata p))"

fun message_fields :: "message \<Rightarrow> (string \<times> jsval) list" where
  "message_fields (System content md) = [(''role'', JStr ''system''), (''content'', JStr content)]"
| "message_fields (User parts md) = [(''role'', JStr ''user''), (''content'', JArr (map js_of_user_part parts))]"
| "message_fields (Assistant parts md) =
     [(''role'', JStr ''assistant''), (''content'', JArr (map js_of_assistant_part parts))]"
| "message_fields (Tool parts md) = [(''role'', JStr ''tool''), (''content'', JArr (map js_of_tool_result parts))]"

fun message_metadata :: "message \<Rightarrow> metadata" where
  "message_metadata (System content md) = md"
| "message_metadata (User parts md) = md"
| "message_metadata (Assistant parts md) = md"
| "message_metadata (Tool parts md) = md"

definition js_of_message :: "message \<Rightarrow> jsval" where
  "js_of_message m = JObj (message_fields m @ metadata_field (message_metadata m))"

text \<open>
  What provider metadata consists of for this target: the overlay (the bag of the namespace
  \<^verbatim>\<open>openaiCompatible\<close>), and the metadata that remains once the overlay is taken out
  (none when no namespace is left).  \<open>extras\<close> are the properties the hoisting leaves on the
  object in place of its metadata: the remaining metadata, then the overlay's keys.
\<close>

definition overlay :: "metadata \<Rightarrow> bag" where
  "overlay md =
     (case md of
        None \<Rightarrow> []
      | Some namespaces \<Rightarrow> (case map_of namespaces ''openaiCompatible'' of None \<Rightarrow> [] | Some b \<Rightarrow> b))"

definition remaining :: "metadata \<Rightarrow> metadata" where
  "remaining md =
     (case md of
        None \<Rightarrow> None
      | Some namespaces \<Rightarrow>
          (case map_of namespaces ''openaiCompatible'' of
             None \<Rightarrow> Some namespaces
           | Some b \<Rightarrow>
               (if AList.delete ''openaiCompatible'' namespaces = [] then None
                else Some (AList.delete ''openaiCompatible'' namespaces))))"

definition extras :: "metadata \<Rightarrow> (string \<times> jsval) list" where
  "extras md = metadata_field (remaining md) @ overlay md"

text \<open>
  Conditions under which the hoisting does to a typed object what its name says.
  \<open>plain v\<close>: \<^verbatim>\<open>findAndHoistMetadata\<close> has no effect on \<open>v\<close> (nothing inside \<open>v\<close> carries
  \<^verbatim>\<open>providerMetadata.openaiCompatible\<close>).  \<open>safe reserved md\<close>: the keys of the overlay
  are distinct, none is among \<open>reserved\<close> (the names of the object's own fields and
  \<^verbatim>\<open>providerMetadata\<close>), and the overlay's values and the remaining metadata are plain.
  For a part the payload (\<^verbatim>\<open>args\<close>, \<^verbatim>\<open>result\<close>, \<^verbatim>\<open>data\<close>) is plain as well.
\<close>

definition plain :: "jsval \<Rightarrow> bool" where
  "plain v = (findAndHoistMetadata v = Returned v)"

definition safe :: "string list \<Rightarrow> metadata \<Rightarrow> bool" where
  "safe reserved md =
     (distinct (map fst (overlay md)) \<and>
      list_all (\<lambda>k. k \<notin> set reserved) (map fst (overlay md)) \<and>
      list_all plain (map snd (overlay md)) \<and>
      list_all plain (map snd (metadata_field (remaining md))))"

fun safe_user_part :: "user_part \<Rightarrow> bool" where
  "safe_user_part (UserText t md) = safe [''type'', ''text'', ''providerMetadata''] md"
| "safe_user_part (UserImage img mimeType md) =
     safe [''type'', ''image'', ''mimeType'', ''providerMetadata''] md"
| "safe_user_part (UserFile d mimeType md) =
     (safe [''type'', ''data'', ''mimeType'', ''providerMetadata''] md \<and> plain d)"

fun safe_assistant_part :: "assistant_part \<Rightarrow> bool" where
  "safe_assistant_part (AssistantText t md) = safe [''type'', ''text'', ''providerMetadata''] md"
| "safe_assistant_part (ToolCall toolCallId toolName args md) =
     (safe [''type'', ''toolCallId'', ''toolName'', ''args'', ''providerMetadata''] md \<and> plain args)"

fun safe_tool_result :: "tool_result \<Rightarrow> bool" where
  "safe_tool_result (ToolResult toolCallId toolName result md) =
     (safe [''type'', ''content'', ''toolCallId'', ''toolName'', ''result'', ''providerMetadata''] md
      \<and> plain result)"

fun safe_message :: "message \<Rightarrow> bool" where
  "safe_message (System content md) = safe [''role'', ''content'', ''providerMetadata''] md"
| "safe_message (User parts md) =
     (safe [''role'', ''content'', ''providerMetadata''] md \<and> list_all safe_user_part parts)"
| "safe_message (Assistant parts md) =
     (safe [''role'', ''content'', ''providerMetadata''] md \<and> list_all safe_assistant_part parts)"
| "safe_message (Tool parts md) =
     (safe [''role'', ''content'', ''providerMetadata''] md \<and> list_all safe_tool_result parts)"

text \<open>The prompt as the hoisting leaves it (shown below, for safe messages).\<close>

definition hoisted_user_part :: "user_part \<Rightarrow> jsval" where
  "hoisted_user_part p = JObj (user_part_fields p @ extras (user_part_metadata p))"

definition hoisted_assistant_part :: "assistant_part \<Rightarrow> jsval" where
  "hoisted_assistant_part p = JObj (assistant_part_fields p @ extras (assistant_part_metadata p))"

definition hoisted_tool_result :: "tool_result \<Rightarrow> jsval" where
  "hoisted_tool_result p = JObj (tool_result_fields p @ extras (tool_result_metadata p))"

fun hoisted_fields :: "message \<Rightarrow> (string \<times> jsval) list" where
  "hoisted_fields (System content md) = [(''role'', JStr ''system''), (''content'', JStr content)]"
| "hoisted_fields (User parts md) = [(''role'', JStr ''user''), (''content'', JArr (map hoisted_user_part parts))]"
| "hoisted_fields (Assistant parts md) =
     [(''role'', JStr ''assistant''), (''content'', JArr (map hoisted_assistant_part parts))]"
| "hoisted_fields (Tool parts md) = [(''role'', JStr ''tool''), (''content'', JArr (map hoisted_tool_result parts))]"

definition hoisted_message :: "message \<Rightarrow> jsval" where
  "hoisted_message m = JObj (hoisted_fields m @ extras (message_metadata m))"

text \<open>
  The wire forms in the claims' words, on typed parts: the \<^verbatim>\<open>url\<close> of an image; the
  element of a user message's content array for a text or an image part (a file part has
  none); the combined text and the tool-call records of an assistant message; the message
  of a tool result.  Each is the structural object with the object's \<open>extras\<close> spread over it.
  \<open>wire_messages\<close> collects, per role, the messages pushed for one message.
\<close>

fun wire_url :: "builtins \<Rightarrow> image_data \<Rightarrow> string option \<Rightarrow> jsval" where
  "wire_url env (ImageURL href) mimeType = JStr href"
| "wire_url env (ImageBytes bs) mimeType =
     JStr (''data:'' @ (case mimeType of None \<Rightarrow> ''image/jpeg'' | Some m \<Rightarrow> m) @ '';base64,''
           @ convertUint8ArrayToBase64 env (JBytes bs))"

fun wire_user_part :: "builtins \<Rightarrow> user_part \<Rightarrow> error + jsval" where
  "wire_user_part env (UserText t md) =
     Inr (JObj (spread [(''type'', JStr ''text''), (''text'', JStr t)] (extras md)))"
| "wire_user_part env (UserImage img mimeType md) =
     Inr (JObj (spread [(''type'', JStr ''image_url''),
                        (''image_url'', JObj [(''url'', wire_url env img mimeType)])] (extras md)))"
| "wire_user_part env (UserFile d mimeType md) =
     Inl (UnsupportedFunctionalityError ''File content parts in user messages'')"

fun combined_text :: "assistant_part list \<Rightarrow> string" where
  "combined_text [] = []"
| "combined_text (AssistantText t md # parts) = t @ combined_text parts"
| "combined_text (ToolCall toolCallId toolName args md # parts) = combined_text parts"

fun tool_call_entries :: "builtins \<Rightarrow> assistant_part list \<Rightarrow> jsval list" where
  "tool_call_entries env [] = []"
| "tool_call_entries env (AssistantText t md # parts) = tool_call_entries env parts"
| "tool_call_entries env (ToolCall toolCallId toolName args md # parts) =
     JObj (spread [(''id'', JStr toolCallId), (''type'', JStr ''function''),
                   (''function'', JObj [(''name'', JStr toolName),
                                        (''arguments'', JSON_stringify env args)])]
             (extras md))
     # tool_call_entries env parts"

fun wire_tool_result :: "builtins \<Rightarrow> (string \<times> jsval) list \<Rightarrow> tool_result \<Rightarrow> jsval" where
  "wire_tool_result env rest (ToolResult toolCallId toolName result md) =
     JObj (spread (spread [(''role'', JStr ''tool''), (''tool_call_id'', JStr toolCallId),
                           (''content'', JSON_stringify env result)] (extras md)) rest)"

fun wire_messages :: "builtins \<Rightarrow> message \<Rightarrow> error + jsval list" where
  "wire_messages env (System content md) =
     Inr [JObj (spread [(''role'', JStr ''system''), (''content'', JStr content)] (extras md))]"
| "wire_messages env (User [UserText t pmd] md) =
     Inr [JObj (spread (spread [(''role'', JStr ''user''), (''content'', JStr t)] (extras md)) (extras pmd))]"
| "wire_messages env (User parts md) =
     (case map_throwing (wire_user_part env) parts of
        Inl e \<Rightarrow> Inl e
      | Inr elems \<Rightarrow> Inr [JObj (spread [(''role'', JStr ''user''), (''content'', JArr elems)] (extras md))])"
| "wire_messages env (Assistant parts md) =
     Inr [JObj (spread [(''role'', JStr ''assistant''), (''content'', JStr (combined_text parts)),
                        (''tool_calls'', if tool_call_entries env parts = [] then JUndefined
                                         else JArr (tool_call_entries env parts))]
                  (extras md))]"
| "wire_messages env (Tool parts md) = Inr (map (wire_tool_result env (extras md)) parts)"


fun is_file :: "user_part \<Rightarrow> bool" where
  "is_file (UserFile d mimeType md) = True"
| "is_file _ = False"





section \<open>Embedding a value\<close>


text \<open>
  \<^verbatim>\<open>embed({ model, value, providerOptions, maxRetries, abortSignal, headers })\<close>.
  A count of tokens is a number that may be \<^verbatim>\<open>NaN\<close>.  The opaque arguments that
  are passed through and the embeddings are JavaScript values.
\<close>

datatype number = NaN | Finite int

record usage =
  tokens :: number

record embed_request =
  values' :: "jsval list"
  abortSignal :: jsval
  headers :: jsval
  providerOptions :: jsval

record model_response =
  embeddings :: "jsval list"
  usage :: "usage option"
  providerMetadata :: jsval
  response :: jsval

record embed_result =
  value' :: jsval
  embedding :: jsval
  usage :: usage
  providerMetadata :: jsval
  response :: jsval

text \<open>What the call does to the outside is recorded as a list of events: the spans it
  starts, annotates and ends, and the calls of the capability's \<^verbatim>\<open>doEmbed\<close>.\<close>

datatype event =
    SpanStart string
  | SpanSetAttributes string
  | SpanEnd string
  | DoEmbedCalled embed_request

text \<open>The capability. What \<^verbatim>\<open>doEmbed\<close> answers may depend on what happened before
  the call; an exception it throws is an \<open>Inl\<close>; \<open>usage = None\<close> is a response without
  a usage object.\<close>

record embedding_model =
  specificationVersion :: string
  provider :: string
  modelId :: string
  doEmbed :: "event list \<Rightarrow> embed_request \<Rightarrow> error + model_response"

text \<open>Modelled from the spec: the classification of errors, which the sources leave to
  the retry helper (not among them). Section 4.2 and 7: only transient (network or
  provider-side) failures are retried; contract violations, unsupported content and
  cancellation are never retried.\<close>

fun retryable :: "error \<Rightarrow> bool" where
  "retryable (Transient m) = True"
| "retryable _ = False"

text \<open>Modelled from the spec: \<^verbatim>\<open>prepareRetries\<close> (\<^verbatim>\<open>../util/prepare-retries\<close>) is not
  among the sources. Section 4.2 and the documentation of \<^verbatim>\<open>embed\<close>: \<^verbatim>\<open>maxRetries\<close>
  defaults to 2, 0 disables retries; a failure that is retry-eligible is retried up to
  \<^verbatim>\<open>maxRetries\<close> additional times after the first failure; the final failure
  propagates the last error unchanged. The body is a computation on a state \<open>'s\<close>.\<close>

definition prepareRetries :: "nat option \<Rightarrow> nat" where
  "prepareRetries maxRetries = (case maxRetries of None \<Rightarrow> 2 | Some n \<Rightarrow> n)"

primrec retry :: "nat \<Rightarrow> ('s \<Rightarrow> (error + 'a) \<times> 's) \<Rightarrow> 's \<Rightarrow> (error + 'a) \<times> 's" where
  "retry 0 body s = body s"
| "retry (Suc n) body s =
     (case body s of
        (Inr v, s') \<Rightarrow> (Inr v, s')
      | (Inl e, s') \<Rightarrow> if retryable e then retry n body s' else (Inl e, s'))"

text \<open>Modelled from the spec: \<^verbatim>\<open>recordSpan\<close> (\<^verbatim>\<open>../telemetry/record-span\<close>) is not
  among the sources. Section 4.2 and 6: the operation is wrapped in a span that is started before
  it runs and ended after it, whatever its outcome. The attributes of a span are left out.\<close>

definition recordSpan ::
    "string \<Rightarrow> (event list \<Rightarrow> (error + 'a) \<times> event list) \<Rightarrow> event list \<Rightarrow> (error + 'a) \<times> event list" where
  "recordSpan name fn log = (case fn (log @ [SpanStart name]) of (r, log') \<Rightarrow> (r, log' @ [SpanEnd name]))"

text \<open>The function given to the inner \<^verbatim>\<open>recordSpan\<close>: one call of
  \<^verbatim>\<open>model.doEmbed({ values: [value], abortSignal, headers, providerOptions })\<close>, then
  \<^verbatim>\<open>embeddings[0]\<close> (\<^verbatim>\<open>undefined\<close> for an empty array) and
  \<^verbatim>\<open>usage ?? { tokens: NaN }\<close>; it returns
  \<^verbatim>\<open>{ embedding, usage, providerMetadata, response }\<close>, here a tuple.\<close>

definition doEmbed_fn ::
    "embedding_model \<Rightarrow> jsval \<Rightarrow> jsval \<Rightarrow> jsval \<Rightarrow> jsval \<Rightarrow> event list
      \<Rightarrow> (error + jsval \<times> usage \<times> jsval \<times> jsval) \<times> event list" where
  "doEmbed_fn model v opts signal hdrs log =
     (let request = \<lparr>values' = [v], abortSignal = signal, headers = hdrs,
                      providerOptions = opts\<rparr>
      in case doEmbed model log request of
           Inl e \<Rightarrow> (Inl e, log @ [DoEmbedCalled request])
         | Inr modelResponse \<Rightarrow>
             (Inr (case embeddings modelResponse of [] \<Rightarrow> JUndefined | e # _ \<Rightarrow> e,
                   case model_response.usage modelResponse of None \<Rightarrow> \<lparr>tokens = NaN\<rparr> | Some u \<Rightarrow> u,
                   model_response.providerMetadata modelResponse,
                   model_response.response modelResponse),
              log @ [DoEmbedCalled request, SpanSetAttributes ''ai.embed.doEmbed'']))"

definition embed ::
    "embedding_model \<Rightarrow> jsval \<Rightarrow> jsval \<Rightarrow> nat option \<Rightarrow> jsval \<Rightarrow> jsval \<Rightarrow> event list \<Rightarrow> (error + embed_result) \<times> event list" where
  "embed model v opts maxRetriesArg signal hdrs log =
     (if specificationVersion model \<noteq> ''v2'' then
        (Inl (UnsupportedModelVersionError (specificationVersion model) (provider model) (modelId model)), log)
      else
        (let maxRetries = prepareRetries maxRetriesArg in
         recordSpan ''ai.embed''
           (\<lambda>log. case retry maxRetries
                         (recordSpan ''ai.embed.doEmbed'' (doEmbed_fn model v opts signal hdrs))
                         log of
                     (Inl e, log') \<Rightarrow> (Inl e, log')
                   | (Inr (e, u, pm, r), log') \<Rightarrow>
                       (Inr \<lparr>value' = v, embedding = e, usage = u, providerMetadata = pm, response = r\<rparr>,
                        log' @ [SpanSetAttributes ''ai.embed'']))
           log))"


text \<open>A body whose \<open>i\<close>-th invocation ends as \<open>outcome i\<close> says; its state counts the
  invocations.\<close>

definition scripted :: "(nat \<Rightarrow> error + 'a) \<Rightarrow> nat \<Rightarrow> (error + 'a) \<times> nat" where
  "scripted outcome i = (outcome i, Suc i)"


text \<open>A capability that answers every request with one embedding and no usage object.\<close>

definition constant_model :: embedding_model where
  "constant_model =
     \<lparr>specificationVersion = ''v2'', provider = ''provider'', modelId = ''model'',
      doEmbed = (\<lambda>h request. Inr \<lparr>embeddings = [JArr [JNum 1, JNum 2]], usage = None,
                                    providerMetadata = JUndefined, response = JUndefined\<rparr>)\<rparr>"

section \<open>Properties of objects\<close>

lemma spread_Nil [simp]: "spread t [] = t"
  by (simp add: spread_def)

lemma spread_Cons [simp]: "spread t ((k, v) # s) = spread (AList.update k v t) s"
  by (simp add: spread_def)

lemma update_append_new: "k \<notin> fst ` set t \<Longrightarrow> AList.update k v t = t @ [(k, v)]"
  by (induction t) auto

lemma update_mid: "k \<notin> fst ` set t \<Longrightarrow> AList.update k v (t @ (k, w) # s) = t @ (k, v) # s"
  by (induction t) auto

lemma delete_mid:
  "k \<notin> fst ` set t \<Longrightarrow> k \<notin> fst ` set s \<Longrightarrow> AList.delete k (t @ (k, w) # s) = t @ s"
  by (induction t) auto

lemma spread_new:
  "distinct (map fst s) \<Longrightarrow> fst ` set s \<inter> fst ` set t = {} \<Longrightarrow> spread t s = t @ s"
proof (induction s arbitrary: t)
  case Nil
  then show ?case by simp
next
  case (Cons a s)
  obtain k v where a: "a = (k, v)" by (cases a)
  have "spread (t @ [(k, v)]) s = (t @ [(k, v)]) @ s"
    using Cons.prems a by (intro Cons.IH) auto
  moreover have "AList.update k v t = t @ [(k, v)]"
    using Cons.prems a by (intro update_append_new) auto
  ultimately show ?case by (simp add: a)
qed

lemma lookup_absent: "k \<notin> fst ` set t \<Longrightarrow> lookup t k = JUndefined"
proof -
  assume "k \<notin> fst ` set t"
  then have "map_of t k = None" by (simp add: map_of_eq_None_iff)
  then show ?thesis by (simp add: lookup_def)
qed

lemma lookup_append:
  "lookup (t @ s) k = (if k \<in> fst ` set t then lookup t k else lookup s k)"
proof (cases "map_of t k")
  case None
  then have "k \<notin> fst ` set t" by (simp add: map_of_eq_None_iff)
  with None show ?thesis by (simp add: lookup_def map_add_def)
next
  case (Some v)
  then have "k \<in> fst ` set t" by (metis map_of_eq_None_iff option.distinct(1))
  with Some show ?thesis by (simp add: lookup_def)
qed

lemma lookup_Cons [simp]: "lookup ((k', v) # t) k = (if k = k' then v else lookup t k)"
  by (simp add: lookup_def)

lemma lookup_Nil [simp]: "lookup [] k = JUndefined"
  by (simp add: lookup_def)

lemma lookup_update: "lookup (AList.update k v t) k' = (if k' = k then v else lookup t k')"
  by (simp add: lookup_def update_conv')

lemma lookup_spread_absent: "k \<notin> fst ` set s \<Longrightarrow> lookup (spread t s) k = lookup t k"
proof (induction s arbitrary: t)
  case Nil
  then show ?case by simp
next
  case (Cons a s)
  obtain k' v where a: "a = (k', v)" by (cases a)
  with Cons.prems have "k \<noteq> k'" and "k \<notin> fst ` set s" by auto
  then show ?case
    using Cons.IH [of "AList.update k' v t"] a by (simp add: lookup_update)
qed

lemma lookup_spread_present:
  "distinct (map fst s) \<Longrightarrow> k \<in> fst ` set s \<Longrightarrow> lookup (spread t s) k = lookup s k"
proof (induction s arbitrary: t)
  case Nil
  then show ?case by simp
next
  case (Cons a s)
  obtain k' v where a: "a = (k', v)" by (cases a)
  show ?case
  proof (cases "k = k'")
    case True
    then have "k \<notin> fst ` set s"
      using Cons.prems(1) a by force
    then have "lookup (spread (AList.update k' v t) s) k = lookup (AList.update k' v t) k"
      by (rule lookup_spread_absent)
    then show ?thesis
      using True a by (simp add: lookup_update)
  next
    case False
    then have "k \<in> fst ` set s"
      using Cons.prems(2) a by auto
    then have "lookup (spread (AList.update k' v t) s) k = lookup s k"
      using Cons.prems(1) by (intro Cons.IH) simp
    then show ?thesis
      using False a by simp
  qed
qed

lemma map_of_namespaces:
  "map_of (map (\<lambda>(ns, b). (ns, JObj b)) namespaces) k = map_option JObj (map_of namespaces k)"
  by (induction namespaces) auto

lemma delete_namespaces:
  "AList.delete k (map (\<lambda>(ns, b). (ns, JObj b)) namespaces)
     = map (\<lambda>(ns, b). (ns, JObj b)) (AList.delete k namespaces)"
  by (induction namespaces) auto

section \<open>Hoisting a typed prompt\<close>

lemma hoist_own_fields:
  assumes "safe reserved md"
    and "fst ` set fs \<subseteq> set reserved"
    and "''providerMetadata'' \<in> set reserved"
    and "''providerMetadata'' \<notin> fst ` set fs"
  shows "hoist_own (fs @ metadata_field md)
           = Returned (fs @ metadata_field (remaining md) @ overlay md)"
proof (cases md)
  case None
  then show ?thesis
    using assms(4)
    by (simp add: hoist_own_def metadata_field_def remaining_def overlay_def lookup_append lookup_absent)
next
  case (Some namespaces)
  let ?pm = "JObj (map (\<lambda>(ns, b). (ns, JObj b)) namespaces)"
  have pm: "lookup (fs @ [(''providerMetadata'', ?pm)]) ''providerMetadata'' = ?pm"
    using assms(4) by (simp add: lookup_append)
  show ?thesis
  proof (cases "map_of namespaces ''openaiCompatible''")
    case None
    then have "lookup (map (\<lambda>(ns, b). (ns, JObj b)) namespaces) ''openaiCompatible'' = JUndefined"
      by (simp add: lookup_def map_of_namespaces)
    then show ?thesis
      using Some None pm
      by (simp add: hoist_own_def metadata_field_def remaining_def overlay_def)
  next
    case (Some b)
    note b = Some
    have oc: "lookup (map (\<lambda>(ns, b). (ns, JObj b)) namespaces) ''openaiCompatible'' = JObj b"
      using b by (simp add: lookup_def map_of_namespaces)
    have ov: "overlay md = b"
      using \<open>md = Some namespaces\<close> b by (simp add: overlay_def)
    have db: "distinct (map fst b)" and nb: "fst ` set b \<inter> set reserved = {}"
      using assms(1) ov by (auto simp: safe_def list_all_iff)
    have disj: "fst ` set b \<inter> fst ` set (fs @ [(''providerMetadata'', ?pm)]) = {}"
      using nb assms(2,3) by auto
    have sp: "spread (fs @ [(''providerMetadata'', ?pm)]) b = fs @ (''providerMetadata'', ?pm) # b"
      using spread_new [OF db disj] by simp
    have pm1: "lookup (fs @ (''providerMetadata'', ?pm) # b) ''providerMetadata'' = ?pm"
      using assms(4) by (simp add: lookup_append)
    have upd: "AList.update ''providerMetadata'' x (fs @ (''providerMetadata'', ?pm) # b)
        = fs @ (''providerMetadata'', x) # b" for x
      using assms(4) by (rule update_mid)
    have npb: "''providerMetadata'' \<notin> fst ` set b"
      using nb assms(3) by auto
    have del: "AList.delete ''providerMetadata'' (fs @ (''providerMetadata'', x) # b) = fs @ b" for x
      using assms(4) npb by (rule delete_mid)
    show ?thesis
      using \<open>md = Some namespaces\<close> b
      by (simp add: hoist_own_def metadata_field_def pm oc sp pm1 upd del delete_namespaces
          remaining_def overlay_def Let_def)
  qed
qed

lemma forEach_append:
  "forEach f (xs @ ys) =
     (case forEach f xs of
        Threw xs' \<Rightarrow> Threw (xs' @ ys)
      | Returned xs' \<Rightarrow> map_completion ((@) xs') (forEach f ys))"
proof (induction xs)
  case Nil
  show ?case by (cases "forEach f ys") simp_all
next
  case (Cons x xs)
  show ?case
  proof (cases "f x")
    case (Threw x')
    then show ?thesis by simp
  next
    case (Returned x')
    show ?thesis
      by (cases "forEach f xs"; cases "forEach f ys") (simp_all add: Returned Cons.IH)
  qed
qed

lemma forEach_plain_values:
  "list_all plain (map snd xs) \<Longrightarrow>
   forEach (\<lambda>(k, v). map_completion (Pair k) (findAndHoistMetadata v)) xs = Returned xs"
  by (induction xs) (auto simp: plain_def)

lemma forEach_map:
  "(\<And>x. x \<in> set xs \<Longrightarrow> f (g x) = Returned (h x)) \<Longrightarrow> forEach f (map g xs) = Returned (map h xs)"
  by (induction xs) auto

lemma plain_simps [simp]:
  "plain (JStr s)" "plain (JURL u)" "plain (JBytes bs)" "plain JUndefined" "plain JNull"
  "plain (JBool b)" "plain (JNum n)"
  by (simp_all add: plain_def)

lemma safe_extras_plain: "safe reserved md \<Longrightarrow> list_all plain (map snd (extras md))"
  by (simp add: safe_def extras_def)

lemma hoist_object:
  assumes "safe reserved md"
    and "fst ` set fs \<subseteq> set reserved"
    and "''providerMetadata'' \<in> set reserved"
    and "''providerMetadata'' \<notin> fst ` set fs"
    and "forEach (\<lambda>(k, v). map_completion (Pair k) (findAndHoistMetadata v)) fs = Returned fs'"
  shows "findAndHoistMetadata (JObj (fs @ metadata_field md)) = Returned (JObj (fs' @ extras md))"
proof -
  have "hoist_own (fs @ metadata_field md) = Returned (fs @ extras md)"
    using hoist_own_fields [OF assms(1-4)] by (simp add: extras_def)
  moreover have "forEach (\<lambda>(k, v). map_completion (Pair k) (findAndHoistMetadata v)) (fs @ extras md)
      = Returned (fs' @ extras md)"
    using assms(5) forEach_plain_values [OF safe_extras_plain [OF assms(1)]]
    by (simp add: forEach_append)
  ultimately show ?thesis by simp
qed

lemma plain_js_of_image [simp]: "plain (js_of_image img)"
  by (cases img) simp_all

lemma hoist_plain_object:
  assumes "safe reserved md"
    and "fst ` set fs \<subseteq> set reserved"
    and "''providerMetadata'' \<in> set reserved"
    and "''providerMetadata'' \<notin> fst ` set fs"
    and "list_all plain (map snd fs)"
  shows "findAndHoistMetadata (JObj (fs @ metadata_field md)) = Returned (JObj (fs @ extras md))"
  using assms(1-4) forEach_plain_values [OF assms(5)] by (rule hoist_object)

lemma hoist_user_part:
  assumes "safe_user_part p"
  shows "findAndHoistMetadata (js_of_user_part p) = Returned (hoisted_user_part p)"
  unfolding js_of_user_part_def hoisted_user_part_def
proof (cases p)
  case (UserText t md)
  show "findAndHoistMetadata (JObj (user_part_fields p @ metadata_field (user_part_metadata p)))
      = Returned (JObj (user_part_fields p @ extras (user_part_metadata p)))"
    using assms UserText
    by (intro hoist_plain_object [where reserved = "[''type'', ''text'', ''providerMetadata'']"]) simp_all
next
  case (UserImage img mimeType md)
  show "findAndHoistMetadata (JObj (user_part_fields p @ metadata_field (user_part_metadata p)))
      = Returned (JObj (user_part_fields p @ extras (user_part_metadata p)))"
  proof (cases mimeType)
    case None
    with assms UserImage show ?thesis
      by (intro hoist_plain_object [where reserved = "[''type'', ''image'', ''mimeType'', ''providerMetadata'']"])
         simp_all
  next
    case (Some m)
    with assms UserImage show ?thesis
      by (intro hoist_plain_object [where reserved = "[''type'', ''image'', ''mimeType'', ''providerMetadata'']"])
         simp_all
  qed
next
  case (UserFile d mimeType md)
  show "findAndHoistMetadata (JObj (user_part_fields p @ metadata_field (user_part_metadata p)))
      = Returned (JObj (user_part_fields p @ extras (user_part_metadata p)))"
    using assms UserFile
    by (intro hoist_plain_object [where reserved = "[''type'', ''data'', ''mimeType'', ''providerMetadata'']"])
       simp_all
qed

lemma hoist_assistant_part:
  assumes "safe_assistant_part p"
  shows "findAndHoistMetadata (js_of_assistant_part p) = Returned (hoisted_assistant_part p)"
  unfolding js_of_assistant_part_def hoisted_assistant_part_def
proof (cases p)
  case (AssistantText t md)
  show "findAndHoistMetadata (JObj (assistant_part_fields p @ metadata_field (assistant_part_metadata p)))
      = Returned (JObj (assistant_part_fields p @ extras (assistant_part_metadata p)))"
    using assms AssistantText
    by (intro hoist_plain_object [where reserved = "[''type'', ''text'', ''providerMetadata'']"]) simp_all
next
  case (ToolCall toolCallId toolName args md)
  show "findAndHoistMetadata (JObj (assistant_part_fields p @ metadata_field (assistant_part_metadata p)))
      = Returned (JObj (assistant_part_fields p @ extras (assistant_part_metadata p)))"
    using assms ToolCall
    by (intro hoist_plain_object
          [where reserved = "[''type'', ''toolCallId'', ''toolName'', ''args'', ''providerMetadata'']"])
       simp_all
qed

lemma hoist_tool_result:
  assumes "safe_tool_result p"
  shows "findAndHoistMetadata (js_of_tool_result p) = Returned (hoisted_tool_result p)"
  unfolding js_of_tool_result_def hoisted_tool_result_def
proof (cases p)
  case (ToolResult toolCallId toolName result md)
  show "findAndHoistMetadata (JObj (tool_result_fields p @ metadata_field (tool_result_metadata p)))
      = Returned (JObj (tool_result_fields p @ extras (tool_result_metadata p)))"
    using assms ToolResult
    by (intro hoist_plain_object
          [where reserved = "[''type'', ''content'', ''toolCallId'', ''toolName'', ''result'', ''providerMetadata'']"])
       simp_all
qed

lemma hoist_message:
  assumes "safe_message m"
  shows "findAndHoistMetadata (js_of_message m) = Returned (hoisted_message m)"
proof -
  have "forEach (\<lambda>(k, v). map_completion (Pair k) (findAndHoistMetadata v)) (message_fields m)
      = Returned (hoisted_fields m)"
  proof (cases m)
    case (System content md)
    then show ?thesis by simp
  next
    case (User parts md)
    then have "forEach findAndHoistMetadata (map js_of_user_part parts) = Returned (map hoisted_user_part parts)"
      using assms by (intro forEach_map hoist_user_part) (simp add: list_all_iff)
    with User show ?thesis by simp
  next
    case (Assistant parts md)
    then have "forEach findAndHoistMetadata (map js_of_assistant_part parts)
        = Returned (map hoisted_assistant_part parts)"
      using assms by (intro forEach_map hoist_assistant_part) (simp add: list_all_iff)
    with Assistant show ?thesis by simp
  next
    case (Tool parts md)
    then have "forEach findAndHoistMetadata (map js_of_tool_result parts)
        = Returned (map hoisted_tool_result parts)"
      using assms by (intro forEach_map hoist_tool_result) (simp add: list_all_iff)
    with Tool show ?thesis by simp
  qed
  note fields = this
  have md: "safe [''role'', ''content'', ''providerMetadata''] (message_metadata m)"
    using assms by (cases m) simp_all
  have keys: "fst ` set (message_fields m) \<subseteq> set [''role'', ''content'', ''providerMetadata'']"
    by (cases m) simp_all
  have pm: "''providerMetadata'' \<in> set [''role'', ''content'', ''providerMetadata'']"
    by simp
  have npm: "''providerMetadata'' \<notin> fst ` set (message_fields m)"
    by (cases m) simp_all
  show ?thesis
    unfolding js_of_message_def hoisted_message_def
    using md keys pm npm fields by (rule hoist_object)
qed

section \<open>Normalizing a hoisted typed prompt\<close>

lemma extras_keys:
  assumes "safe reserved md" and "''providerMetadata'' \<in> set reserved"
  shows "fst ` set (extras md) \<inter> (set reserved - {''providerMetadata''}) = {}"
  using assms
  by (auto simp: extras_def safe_def list_all_iff metadata_field_def split: option.splits)



lemma rest_of_typed:
  assumes "safe reserved md" and "''providerMetadata'' \<in> set reserved"
    and "fst ` set fs \<subseteq> set ks" and "set ks \<subseteq> set reserved - {''providerMetadata''}"
  shows "rest_of (JObj (fs @ extras md)) ks = extras md"
proof -
  have "filter (\<lambda>(k, x). k \<notin> set ks) fs = []"
    using assms(3) by (auto simp: filter_empty_conv)
  moreover have "k \<notin> set ks" if "(k, x) \<in> set (extras md)" for k x
  proof
    assume "k \<in> set ks"
    moreover have "k \<in> fst ` set (extras md)"
      using that by force
    ultimately show False
      using extras_keys [OF assms(1,2)] assms(4) by blast
  qed
  then have "filter (\<lambda>(k, x). k \<notin> set ks) (extras md) = extras md"
    by (auto simp: filter_id_conv)
  ultimately show ?thesis by (simp add: rest_of_def)
qed

lemma extras_distinct:
  assumes "safe reserved md" and "''providerMetadata'' \<in> set reserved"
  shows "distinct (map fst (extras md))"
  using assms
  by (auto simp: extras_def safe_def list_all_iff metadata_field_def split: option.splits)

lemma lookup_extras_reserved:
  assumes "safe reserved md" and "''providerMetadata'' \<in> set reserved"
    and "k \<in> set reserved" and "k \<noteq> ''providerMetadata''"
  shows "lookup (extras md) k = JUndefined"
proof -
  have "k \<notin> fst ` set (extras md)"
    using extras_keys [OF assms(1,2)] assms(3,4) by blast
  then show ?thesis by (rule lookup_absent)
qed

lemma user_part_hoisted:
  assumes "safe_user_part p"
  shows "user_part env (hoisted_user_part p) = wire_user_part env p"
proof (cases p)
  case (UserText t md)
  have "rest_of (JObj ([(''type'', JStr ''text''), (''text'', JStr t)] @ extras md)) [''type'', ''text'']
      = extras md"
    using assms UserText
    by (intro rest_of_typed [where reserved = "[''type'', ''text'', ''providerMetadata'']"]) auto
  then show ?thesis
    using UserText by (simp add: user_part_def hoisted_user_part_def)
next
  case (UserImage img mimeType md)
  have s: "safe [''type'', ''image'', ''mimeType'', ''providerMetadata''] md"
    using assms UserImage by simp
  have r: "rest_of (JObj (user_part_fields p @ extras md)) [''type'', ''image'', ''mimeType''] = extras md"
    using s UserImage
    by (intro rest_of_typed [where reserved = "[''type'', ''image'', ''mimeType'', ''providerMetadata'']"])
       (auto split: option.splits)
  have x: "lookup (extras md) ''mimeType'' = JUndefined"
    using s by (rule lookup_extras_reserved) simp_all
  show ?thesis
  proof (cases mimeType)
    case None
    have "image_url env (js_of_image img) JUndefined = wire_url env img None"
      by (cases img) (simp_all add: image_url_def)
    then show ?thesis
      using UserImage None r x by (simp add: user_part_def hoisted_user_part_def Let_def)
  next
    case (Some m)
    have "image_url env (js_of_image img) (JStr m) = wire_url env img (Some m)"
      by (cases img) (simp_all add: image_url_def)
    then show ?thesis
      using UserImage Some r by (simp add: user_part_def hoisted_user_part_def Let_def)
  qed
next
  case (UserFile d mimeType md)
  then show ?thesis
    by (simp add: user_part_def hoisted_user_part_def)
qed

lemma map_throwing_map:
  "(\<And>x. x \<in> set xs \<Longrightarrow> f (g x) = h x) \<Longrightarrow> map_throwing f (map g xs) = map_throwing h xs"
  by (induction xs) (auto split: sum.splits)


lemma assistant_parts_hoisted:
  assumes "list_all safe_assistant_part parts"
  shows "assistant_parts env tx calls (map hoisted_assistant_part parts)
           = Inr (tx @ combined_text parts, calls @ tool_call_entries env parts)"
  using assms
proof (induction parts arbitrary: tx calls)
  case Nil
  then show ?case by simp
next
  case (Cons p parts)
  show ?case
  proof (cases p)
    case (AssistantText t md)
    then show ?thesis
      using Cons by (simp add: hoisted_assistant_part_def)
  next
    case (ToolCall toolCallId toolName args md)
    have "rest_of (JObj (assistant_part_fields p @ extras md)) [''type'', ''toolCallId'', ''toolName'', ''args'']
        = extras md"
      using Cons.prems ToolCall
      by (intro rest_of_typed
            [where reserved = "[''type'', ''toolCallId'', ''toolName'', ''args'', ''providerMetadata'']"])
         auto
    then show ?thesis
      using Cons ToolCall by (simp add: hoisted_assistant_part_def)
  qed
qed

lemma tool_responses_hoisted:
  assumes "list_all safe_tool_result parts"
  shows "tool_responses env rest (map hoisted_tool_result parts) = Inr (map (wire_tool_result env rest) parts)"
  using assms
proof (induction parts)
  case Nil
  then show ?case by simp
next
  case (Cons p parts)
  obtain toolCallId toolName result md where p: "p = ToolResult toolCallId toolName result md"
    by (cases p)
  have "rest_of (JObj (tool_result_fields p @ extras md))
          [''type'', ''content'', ''toolCallId'', ''toolName'', ''result''] = extras md"
    using Cons.prems p
    by (intro rest_of_typed
          [where reserved = "[''type'', ''content'', ''toolCallId'', ''toolName'', ''result'', ''providerMetadata'']"])
       auto
  then show ?case
    using Cons p by (simp add: hoisted_tool_result_def)
qed

lemma message_rest:
  assumes "safe_message m"
  shows "rest_of (hoisted_message m) [''role'', ''content''] = extras (message_metadata m)"
proof -
  have "safe [''role'', ''content'', ''providerMetadata''] (message_metadata m)"
    using assms by (cases m) simp_all
  moreover have "fst ` set (hoisted_fields m) \<subseteq> set [''role'', ''content'']"
    by (cases m) simp_all
  ultimately show ?thesis
    unfolding hoisted_message_def
    by (intro rest_of_typed [where reserved = "[''role'', ''content'', ''providerMetadata'']"]) auto
qed

lemma user_message_single_text:
  assumes "safe_user_part (UserText t pmd)"
  shows "user_message env (JArr [hoisted_user_part (UserText t pmd)]) rest =
     Inr [JObj (spread (spread [(''role'', JStr ''user''), (''content'', JStr t)] rest) (extras pmd))]"
proof -
  have "rest_of (JObj ([(''type'', JStr ''text''), (''text'', JStr t)] @ extras pmd)) [''text'', ''type'']
      = extras pmd"
    using assms
    by (intro rest_of_typed [where reserved = "[''type'', ''text'', ''providerMetadata'']"]) auto
  then show ?thesis
    by (simp add: user_message_def hoisted_user_part_def)
qed

lemma user_message_mapped:
  assumes "list_all safe_user_part parts"
    and "\<not> (\<exists>t pmd. parts = [UserText t pmd])"
  shows "user_message env (JArr (map hoisted_user_part parts)) rest =
     (case map_throwing (wire_user_part env) parts of
        Inl e \<Rightarrow> Inl e
      | Inr elems \<Rightarrow> Inr [JObj (spread [(''role'', JStr ''user''), (''content'', JArr elems)] rest)])"
proof -
  have m: "map_throwing (user_part env) (map hoisted_user_part parts) = map_throwing (wire_user_part env) parts"
    using assms(1) by (intro map_throwing_map user_part_hoisted) (simp add: list_all_iff)
  have "\<not> (length_prop (JArr (map hoisted_user_part parts)) = JNum 1
            \<and> get_prop (first_elem (JArr (map hoisted_user_part parts))) ''type'' = JStr ''text'')"
  proof (cases parts)
    case Nil
    then show ?thesis by simp
  next
    case (Cons p ps)
    show ?thesis
    proof (cases ps)
      case Nil
      with Cons assms(2) have "\<not> (\<exists>t pmd. p = UserText t pmd)" by simp
      then have "get_prop (hoisted_user_part p) ''type'' \<noteq> JStr ''text''"
        by (cases p) (simp_all add: hoisted_user_part_def)
      with Cons Nil show ?thesis by simp
    next
      case (Cons q qs)
      with \<open>parts = p # ps\<close> show ?thesis by simp
    qed
  qed
  moreover have "\<not> nullish (first_elem (JArr (map hoisted_user_part parts)))"
    if "length_prop (JArr (map hoisted_user_part parts)) = JNum 1"
    using that by (cases parts) (simp_all add: hoisted_user_part_def)
  ultimately show ?thesis
    using m by (auto simp: user_message_def split: sum.splits)
qed

lemma wire_messages_User_mapped:
  assumes "\<not> (\<exists>t pmd. parts = [UserText t pmd])"
  shows "wire_messages env (User parts md) =
      (case map_throwing (wire_user_part env) parts of
        Inl e \<Rightarrow> Inl e
      | Inr elems \<Rightarrow> Inr [JObj (spread [(''role'', JStr ''user''), (''content'', JArr elems)] (extras md))])"
  using assms by (cases "(env, User parts md)" rule: wire_messages.cases) auto


lemma wire_user_parts_with_file:
  "\<not> list_all (\<lambda>p. \<not> is_file p) parts \<Longrightarrow>
   map_throwing (wire_user_part env) parts
     = Inl (UnsupportedFunctionalityError ''File content parts in user messages'')"
proof (induction parts)
  case Nil
  then show ?case by simp
next
  case (Cons p parts)
  show ?case
  proof (cases p)
    case (UserFile d mimeType md)
    then show ?thesis by simp
  next
    case (UserText t md)
    then show ?thesis using Cons by simp
  next
    case (UserImage img mimeType md)
    then show ?thesis using Cons by simp
  qed
qed


lemma convert_hoisted_message:
  assumes "safe_message m"
  shows "convert_message env (hoisted_message m) = wire_messages env m"
proof (cases m)
  case (System content md)
  then show ?thesis
    using message_rest [OF assms]
    by (simp add: convert_message_def Let_def) (simp add: hoisted_message_def)
next
  case (User parts md)
  have c: "convert_message env (hoisted_message m)
      = user_message env (JArr (map hoisted_user_part parts)) (extras md)"
    using message_rest [OF assms] User
    by (simp add: convert_message_def Let_def) (simp add: hoisted_message_def)
  have sp: "list_all safe_user_part parts"
    using assms User by simp
  show ?thesis
  proof (cases "\<exists>t pmd. parts = [UserText t pmd]")
    case True
    then obtain t pmd where p: "parts = [UserText t pmd]" by blast
    then have "safe_user_part (UserText t pmd)" using sp by simp
    then show ?thesis
      using c p User by (simp add: user_message_single_text)
  next
    case False
    then have "wire_messages env (User parts md) =
      (case map_throwing (wire_user_part env) parts of
        Inl e \<Rightarrow> Inl e
      | Inr elems \<Rightarrow> Inr [JObj (spread [(''role'', JStr ''user''), (''content'', JArr elems)] (extras md))])"
      by (cases "(env, User parts md)" rule: wire_messages.cases) auto
    then show ?thesis
      using c User user_message_mapped [OF sp False] by simp
  qed
next
  case (Assistant parts md)
  have "list_all safe_assistant_part parts"
    using assms Assistant by simp
  then have "assistant_parts env [] [] (map hoisted_assistant_part parts)
      = Inr (combined_text parts, tool_call_entries env parts)"
    using assistant_parts_hoisted [of parts env "[]" "[]"] by simp
  then show ?thesis
    using message_rest [OF assms] Assistant
    by (simp add: convert_message_def Let_def)
       (simp add: hoisted_message_def assistant_message_def)
next
  case (Tool parts md)
  have "list_all safe_tool_result parts"
    using assms Tool by simp
  then have "tool_responses env (extras md) (map hoisted_tool_result parts)
      = Inr (map (wire_tool_result env (extras md)) parts)"
    by (rule tool_responses_hoisted)
  then show ?thesis
    using message_rest [OF assms] Tool
    by (simp add: convert_message_def Let_def)
       (simp add: hoisted_message_def tool_message_def)
qed

text \<open>A safe message inside a conversation: the messages before it are normalized, the
  messages after it are hoisted, and the message contributes \<open>wire_messages\<close>.\<close>

lemma convert_loop_acc:
  "convert_loop env acc ms =
     (case convert_loop env [] ms of Inl e \<Rightarrow> Inl e | Inr w \<Rightarrow> Inr (acc @ w))"
proof (induction ms arbitrary: acc)
  case Nil
  then show ?case by simp
next
  case (Cons m ms)
  show ?case
  proof (cases "convert_message env m")
    case (Inl e)
    then show ?thesis by simp
  next
    case (Inr pushed)
    have "convert_loop env (acc @ pushed) ms =
        (case convert_loop env [] ms of Inl e \<Rightarrow> Inl e | Inr w \<Rightarrow> Inr ((acc @ pushed) @ w))"
      by (rule Cons.IH)
    moreover have "convert_loop env ([] @ pushed) ms =
        (case convert_loop env [] ms of Inl e \<Rightarrow> Inl e | Inr w \<Rightarrow> Inr (([] @ pushed) @ w))"
      by (rule Cons.IH)
    ultimately show ?thesis
      using Inr by (simp split: sum.splits)
  qed
qed

lemma convert_loop_append:
  "convert_loop env [] (xs @ ys) =
     (case convert_loop env [] xs of
        Inl e \<Rightarrow> Inl e
      | Inr w1 \<Rightarrow> (case convert_loop env [] ys of Inl e \<Rightarrow> Inl e | Inr w2 \<Rightarrow> Inr (w1 @ w2)))"
proof (induction xs)
  case Nil
  show ?case by (simp split: sum.splits)
next
  case (Cons m xs)
  show ?case
  proof (cases "convert_message env m")
    case (Inl e)
    then show ?thesis by simp
  next
    case (Inr pushed)
    then show ?thesis
      using convert_loop_acc [of env pushed "xs @ ys"] convert_loop_acc [of env pushed xs] Cons.IH
      by (simp split: sum.splits)
  qed
qed


lemma convert_in_context:
  assumes "convertToOpenAICompatibleChatMessages env before = (before', Inr w1)"
    and "forEach findAndHoistMetadata after = Returned after'"
    and "safe_message m"
  shows "convertToOpenAICompatibleChatMessages env (before @ js_of_message m # after) =
      (before' @ hoisted_message m # after',
       case wire_messages env m of
         Inl e \<Rightarrow> Inl e
       | Inr w \<Rightarrow> (case convert_loop env [] after' of Inl e \<Rightarrow> Inl e | Inr w2 \<Rightarrow> Inr (w1 @ w @ w2)))"
proof -
  from assms(1) have b: "forEach findAndHoistMetadata before = Returned before'"
    and l: "convert_loop env [] before' = Inr w1"
    by (auto simp: convertToOpenAICompatibleChatMessages_def split: completion.splits)
  have h: "forEach findAndHoistMetadata (before @ js_of_message m # after)
      = Returned (before' @ hoisted_message m # after')"
    using b assms(2) hoist_message [OF assms(3)] by (simp add: forEach_append)
  have one: "convert_loop env [] (hoisted_message m # after') =
      (case wire_messages env m of
         Inl e \<Rightarrow> Inl e
       | Inr w \<Rightarrow> (case convert_loop env [] after' of Inl e \<Rightarrow> Inl e | Inr w2 \<Rightarrow> Inr (w @ w2)))"
  proof (cases "wire_messages env m")
    case (Inl e)
    then show ?thesis
      using convert_hoisted_message [OF assms(3), of env] by simp
  next
    case (Inr w)
    then show ?thesis
      using convert_hoisted_message [OF assms(3), of env] convert_loop_acc [of env w after'] by simp
  qed
  have "convert_loop env [] (before' @ hoisted_message m # after') =
      (case wire_messages env m of
         Inl e \<Rightarrow> Inl e
       | Inr w \<Rightarrow> (case convert_loop env [] after' of Inl e \<Rightarrow> Inl e | Inr w2 \<Rightarrow> Inr (w1 @ w @ w2)))"
    unfolding convert_loop_append [of env before' "hoisted_message m # after'"] l one
    by (simp split: sum.splits)
  then show ?thesis
    using h by (simp add: convertToOpenAICompatibleChatMessages_def)
qed

lemma convert_in_conversation:
  assumes "convertToOpenAICompatibleChatMessages env before = (before', Inr w1)"
    and "convertToOpenAICompatibleChatMessages env after = (after', Inr w2)"
    and "safe_message m"
    and "wire_messages env m = Inr w"
  shows "convertToOpenAICompatibleChatMessages env (before @ js_of_message m # after) =
      (before' @ hoisted_message m # after', Inr (w1 @ w @ w2))"
proof -
  from assms(2) have "forEach findAndHoistMetadata after = Returned after'"
    and "convert_loop env [] after' = Inr w2"
    by (auto simp: convertToOpenAICompatibleChatMessages_def split: completion.splits)
  then show ?thesis
    using convert_in_context [OF assms(1) _ assms(3), of after after'] assms(4) by simp
qed



section \<open>The normalizer on the claims' inputs\<close>

text \<open>
  Claim C1 (the normalizer leaves the caller's conversation unchanged) fails on the code:
  a system message with an \<^verbatim>\<open>openaiCompatible\<close> overlay is rewritten in place by
  \<^verbatim>\<open>findAndHoistMetadata\<close>. After the call the message has the overlay's key
  \<^verbatim>\<open>cache\<close> and no \<^verbatim>\<open>providerMetadata\<close>.
\<close>

theorem hoisting_rewrites_the_prompt:
  "convertToOpenAICompatibleChatMessages env
     [JObj [(''role'', JStr ''system''), (''content'', JStr ''s''),
            (''providerMetadata'', JObj [(''openaiCompatible'', JObj [(''cache'', JBool True)])])]]
   = ([JObj [(''role'', JStr ''system''), (''content'', JStr ''s''), (''cache'', JBool True)]],
      Inr [JObj [(''role'', JStr ''system''), (''content'', JStr ''s''), (''cache'', JBool True)]])
   \<and> [JObj [(''role'', JStr ''system''), (''content'', JStr ''s''), (''cache'', JBool True)]]
     \<noteq> [JObj [(''role'', JStr ''system''), (''content'', JStr ''s''),
               (''providerMetadata'', JObj [(''openaiCompatible'', JObj [(''cache'', JBool True)])])]]"
  by (simp add: convertToOpenAICompatibleChatMessages_def hoist_own_def lookup_def spread_def
      convert_message_def rest_of_def Let_def)

text \<open>
  Claim C2 (a tool message fans out, the part-level overlay winning over the message-level
  one) fails on the code: the tool case spreads \<^verbatim>\<open>...toolResponseRest, ...rest\<close>, so on
  the key \<^verbatim>\<open>k\<close> set by both overlays the wire message carries the message-level value.
\<close>

theorem tool_message_overlay_wins:
  "convertToOpenAICompatibleChatMessages env
     [JObj [(''role'', JStr ''tool''),
            (''content'', JArr [JObj [(''type'', JStr ''tool-result''), (''toolCallId'', JStr ''c1''),
                                     (''toolName'', JStr ''f''), (''result'', JNum 1),
                                     (''providerMetadata'', JObj [(''openaiCompatible'', JObj [(''k'', JStr ''part'')])])]]),
            (''providerMetadata'', JObj [(''openaiCompatible'', JObj [(''k'', JStr ''message'')])])]]
   = ([JObj [(''role'', JStr ''tool''),
            (''content'', JArr [JObj [(''type'', JStr ''tool-result''), (''toolCallId'', JStr ''c1''),
                                     (''toolName'', JStr ''f''), (''result'', JNum 1), (''k'', JStr ''part'')]]),
            (''k'', JStr ''message'')]],
      Inr [JObj [(''role'', JStr ''tool''), (''tool_call_id'', JStr ''c1''),
                 (''content'', JSON_stringify env (JNum 1)), (''k'', JStr ''message'')]])"
  by (simp add: convertToOpenAICompatibleChatMessages_def hoist_own_def lookup_def spread_def
      convert_message_def rest_of_def tool_message_def Let_def)

text \<open>The version that reads the metadata (see above) gives the part-level value on the
  same input, and takes nothing from the message's overlay.\<close>

lemma reading_version_tool_message:
  "convertToOpenAICompatibleChatMessages_reading env
     [JObj [(''role'', JStr ''tool''),
            (''content'', JArr [JObj [(''type'', JStr ''tool-result''), (''toolCallId'', JStr ''c1''),
                                     (''toolName'', JStr ''f''), (''result'', JNum 1),
                                     (''providerMetadata'', JObj [(''openaiCompatible'', JObj [(''k'', JStr ''part'')])])]]),
            (''providerMetadata'', JObj [(''openaiCompatible'', JObj [(''k'', JStr ''message'')])])]]
   = Inr [JObj [(''role'', JStr ''tool''), (''tool_call_id'', JStr ''c1''),
                (''content'', JSON_stringify env (JNum 1)), (''k'', JStr ''part'')]]"
  by (simp add: convertToOpenAICompatibleChatMessages_reading_def reading_convert_message_def
      reading_tool_message_def getOpenAIMetadata_def lookup_def spread_def Let_def)

text \<open>
  Claim C3 (a user message with exactly one text part is collapsed to
  \<^verbatim>\<open>{role: user, content: <that part's text>}\<close> with both overlays merged in) fails on the
  code: the part's overlay is assigned to the part itself before the part is read, so an
  overlay key \<^verbatim>\<open>text\<close> replaces the part's text.  The wire content is \<^verbatim>\<open>'bye'\<close>, not
  the part's text \<^verbatim>\<open>'hi'\<close>, and the wire message has no key \<^verbatim>\<open>text\<close>.
\<close>

theorem single_text_overlay_replaces_text:
  "convertToOpenAICompatibleChatMessages env
     [JObj [(''role'', JStr ''user''),
            (''content'', JArr [JObj [(''type'', JStr ''text''), (''text'', JStr ''hi''),
                                     (''providerMetadata'', JObj [(''openaiCompatible'', JObj [(''text'', JStr ''bye'')])])]])]]
   = ([JObj [(''role'', JStr ''user''),
             (''content'', JArr [JObj [(''type'', JStr ''text''), (''text'', JStr ''bye'')]])]],
      Inr [JObj [(''role'', JStr ''user''), (''content'', JStr ''bye'')]])"
  by (simp add: convertToOpenAICompatibleChatMessages_def hoist_own_def lookup_def spread_def
      convert_message_def rest_of_def user_message_def Let_def)

text \<open>The version that reads the metadata gives the claim's message on this input.\<close>

lemma reading_version_keeps_part_text:
  "convertToOpenAICompatibleChatMessages_reading env
     [JObj [(''role'', JStr ''user''),
            (''content'', JArr [JObj [(''type'', JStr ''text''), (''text'', JStr ''hi''),
                                     (''providerMetadata'', JObj [(''openaiCompatible'', JObj [(''text'', JStr ''bye'')])])]])]]
   = Inr [JObj [(''role'', JStr ''user''), (''content'', JStr ''hi''), (''text'', JStr ''bye'')]]"
  by (simp add: convertToOpenAICompatibleChatMessages_reading_def reading_convert_message_def
      reading_user_message_def getOpenAIMetadata_def lookup_def spread_def Let_def)

text \<open>
  For a safe message the collapsed form is as the claim says: the value of every key of
  the wire message is the part's (overlay or remaining metadata) when the part has the key,
  else the message's, else the structural one.
\<close>

lemma single_text_user_message:
  assumes "convertToOpenAICompatibleChatMessages env before = (before', Inr w1)"
    and "convertToOpenAICompatibleChatMessages env after = (after', Inr w2)"
    and "safe_message (User [UserText t pmd] md)"
  shows "\<exists>w. convertToOpenAICompatibleChatMessages env (before @ js_of_message (User [UserText t pmd] md) # after)
               = (before' @ hoisted_message (User [UserText t pmd] md) # after', Inr (w1 @ [w] @ w2))
           \<and> (\<forall>k. get_prop w k =
                 (if k \<in> fst ` set (extras pmd) then lookup (extras pmd) k
                  else if k \<in> fst ` set (extras md) then lookup (extras md) k
                  else lookup [(''role'', JStr ''user''), (''content'', JStr t)] k))"
proof -
  let ?base = "[(''role'', JStr ''user''), (''content'', JStr t)]"
  let ?w = "JObj (spread (spread ?base (extras md)) (extras pmd))"
  have sm: "safe [''role'', ''content'', ''providerMetadata''] md"
    and sp: "safe [''type'', ''text'', ''providerMetadata''] pmd"
    using assms(3) by simp_all
  have dm: "distinct (map fst (extras md))"
    using sm by (rule extras_distinct) simp
  have dp: "distinct (map fst (extras pmd))"
    using sp by (rule extras_distinct) simp
  have wm: "wire_messages env (User [UserText t pmd] md) = Inr [?w]"
    by simp
  have conv: "convertToOpenAICompatibleChatMessages env (before @ js_of_message (User [UserText t pmd] md) # after)
      = (before' @ hoisted_message (User [UserText t pmd] md) # after', Inr (w1 @ [?w] @ w2))"
    using assms(1,2,3) wm by (rule convert_in_conversation)
  have look: "get_prop ?w k =
      (if k \<in> fst ` set (extras pmd) then lookup (extras pmd) k
       else if k \<in> fst ` set (extras md) then lookup (extras md) k
       else lookup ?base k)" for k
    using lookup_spread_present [OF dp, of k "spread ?base (extras md)"]
      lookup_spread_absent [of k "extras pmd" "spread ?base (extras md)"]
      lookup_spread_present [OF dm, of k ?base]
      lookup_spread_absent [of k "extras md" ?base]
    by auto
  show ?thesis
    using conv look by (intro exI [of _ ?w] conjI allI)
qed







text \<open>
  Claim C6 (a user message with a file part makes the normalizer fail with
  \<^verbatim>\<open>UnsupportedFunctionalityError\<close>) fails on the code: the file part's overlay is assigned
  to the part before the part's \<^verbatim>\<open>type\<close> is read, so an overlay with the keys
  \<^verbatim>\<open>type\<close> and \<^verbatim>\<open>text\<close> turns the file part into a text part, and a wire message
  is emitted for it.
\<close>

theorem file_part_with_overlay_accepted:
  "convertToOpenAICompatibleChatMessages env
     [JObj [(''role'', JStr ''user''),
            (''content'', JArr [JObj [(''type'', JStr ''file''), (''data'', JStr ''JVBERi0=''),
                                     (''mimeType'', JStr ''application/pdf''),
                                     (''providerMetadata'',
                                        JObj [(''openaiCompatible'', JObj [(''type'', JStr ''text''), (''text'', JStr ''x'')])])]])]]
   = ([JObj [(''role'', JStr ''user''),
             (''content'', JArr [JObj [(''type'', JStr ''text''), (''data'', JStr ''JVBERi0=''),
                                      (''mimeType'', JStr ''application/pdf''), (''text'', JStr ''x'')]])]],
      Inr [JObj [(''role'', JStr ''user''), (''content'', JStr ''x''), (''data'', JStr ''JVBERi0=''),
                 (''mimeType'', JStr ''application/pdf'')]])"
  by (simp add: convertToOpenAICompatibleChatMessages_def hoist_own_def lookup_def spread_def
      convert_message_def rest_of_def user_message_def Let_def)

text \<open>The version that reads the metadata rejects this input.\<close>

lemma reading_version_rejects_file_part:
  "convertToOpenAICompatibleChatMessages_reading env
     [JObj [(''role'', JStr ''user''),
            (''content'', JArr [JObj [(''type'', JStr ''file''), (''data'', JStr ''JVBERi0=''),
                                     (''mimeType'', JStr ''application/pdf''),
                                     (''providerMetadata'',
                                        JObj [(''openaiCompatible'', JObj [(''type'', JStr ''text''), (''text'', JStr ''x'')])])]])]]
   = Inl (UnsupportedFunctionalityError ''File content parts in user messages'')"
  by (simp add: convertToOpenAICompatibleChatMessages_reading_def reading_convert_message_def
      reading_user_message_def reading_user_part_def getOpenAIMetadata_def lookup_def spread_def Let_def)

text \<open>
  For a safe user message with a file part the normalizer fails as the claim says, whatever
  follows in the conversation, and the error is not retry-eligible.
\<close>

lemma file_part_rejected:
  assumes "convertToOpenAICompatibleChatMessages env before = (before', Inr w1)"
    and "forEach findAndHoistMetadata after = Returned after'"
    and "safe_message (User parts md)"
    and "\<not> list_all (\<lambda>p. \<not> is_file p) parts"
  shows "convertToOpenAICompatibleChatMessages env (before @ js_of_message (User parts md) # after)
           = (before' @ hoisted_message (User parts md) # after',
              Inl (UnsupportedFunctionalityError ''File content parts in user messages''))"
proof -
  have "\<not> (\<exists>t pmd. parts = [UserText t pmd])"
    using assms(4) by auto
  then have "wire_messages env (User parts md)
      = Inl (UnsupportedFunctionalityError ''File content parts in user messages'')"
    using wire_user_parts_with_file [OF assms(4), of env] by (simp add: wire_messages_User_mapped)
  then show ?thesis
    using convert_in_context [OF assms(1,2,3)] by simp
qed

lemma unsupported_content_not_retryable:
  "\<not> retryable (UnsupportedFunctionalityError ''File content parts in user messages'')"
  by simp




text \<open>The version that reads the metadata takes the \<^verbatim>\<open>openaiCompatible\<close> bag only: no
  other namespace reaches its output.\<close>

lemma reading_version_drops_other_namespaces:
  "convertToOpenAICompatibleChatMessages_reading env
     [JObj [(''role'', JStr ''system''), (''content'', JStr ''Be brief.''),
            (''providerMetadata'', JObj [(''anthropic'', JObj [(''cacheControl'', JStr ''ephemeral'')])])]]
   = Inr [JObj [(''role'', JStr ''system''), (''content'', JStr ''Be brief.'')]]"
  by (simp add: convertToOpenAICompatibleChatMessages_reading_def reading_convert_message_def
      getOpenAIMetadata_def lookup_def spread_def Let_def)

section \<open>The retry executor and \<^verbatim>\<open>embed\<close>\<close>

lemma retry_scripted:
  "\<forall>i. j \<le> i \<and> i < j + n \<longrightarrow> (\<exists>m. outcome i = Inl (Transient m)) \<Longrightarrow>
   retry n (scripted outcome) j = (outcome (j + n), Suc (j + n))"
proof (induction n arbitrary: j)
  case 0
  then show ?case by (simp add: scripted_def)
next
  case (Suc n)
  from Suc.prems have "\<exists>m. outcome j = Inl (Transient m)"
    by simp
  then obtain m where m: "outcome j = Inl (Transient m)" ..
  have "\<forall>i. Suc j \<le> i \<and> i < Suc j + n \<longrightarrow> (\<exists>m. outcome i = Inl (Transient m))"
    using Suc.prems by auto
  then have "retry n (scripted outcome) (Suc j) = (outcome (Suc j + n), Suc (Suc j + n))"
    by (rule Suc.IH)
  moreover have "scripted outcome j = (Inl (Transient m), Suc j)"
    by (simp add: scripted_def m)
  ultimately show ?case
    by simp
qed

text \<open>
  Claim C9: a body that fails with a transient error exactly \<open>K\<close> times and then succeeds.
  With \<open>maxRetries = K\<close> the operation succeeds and the body has been invoked \<open>K + 1\<close>
  times; with \<open>maxRetries = K - 1\<close> the operation fails with the error of the body's last
  invocation, as the body raised it, after \<open>K\<close> invocations.
\<close>

theorem retry_K_transient_failures:
  assumes "\<forall>i<K. \<exists>m. outcome i = Inl (Transient m)" and "outcome K = Inr v"
  shows "retry K (scripted outcome) 0 = (Inr v, Suc K) \<and>
         (0 < K \<longrightarrow> (\<exists>m. outcome (K - 1) = Inl (Transient m) \<and>
                           retry (K - 1) (scripted outcome) 0 = (Inl (Transient m), K)))"
proof
  show "retry K (scripted outcome) 0 = (Inr v, Suc K)"
    using retry_scripted [of 0 K outcome] assms by simp
next
  show "0 < K \<longrightarrow> (\<exists>m. outcome (K - 1) = Inl (Transient m) \<and>
                           retry (K - 1) (scripted outcome) 0 = (Inl (Transient m), K))"
  proof
    assume K: "0 < K"
    then obtain m where m: "outcome (K - 1) = Inl (Transient m)"
      using assms(1) by (metis diff_less zero_less_one)
    have "retry (K - 1) (scripted outcome) 0 = (outcome (0 + (K - 1)), Suc (0 + (K - 1)))"
      using assms(1) by (intro retry_scripted) auto
    with K m show "\<exists>m. outcome (K - 1) = Inl (Transient m) \<and>
                           retry (K - 1) (scripted outcome) 0 = (Inl (Transient m), K)"
      by simp
  qed
qed

theorem retry_K_transient_failures_witness:
  "retry 2 (scripted (\<lambda>i. if i < 2 then Inl (Transient ''reset'') else Inr (7::nat))) 0 = (Inr 7, 3) \<and>
   retry 1 (scripted (\<lambda>i. if i < 2 then Inl (Transient ''reset'') else Inr (7::nat))) 0 = (Inl (Transient ''reset''), 2)"
  using retry_K_transient_failures [of 2 "\<lambda>i. if i < 2 then Inl (Transient ''reset'') else Inr (7::nat)" 7]
  by (simp add: numeral_2_eq_2)

text \<open>
  Claim C8: a capability whose \<^verbatim>\<open>specificationVersion\<close> is not \<^verbatim>\<open>'v2'\<close> is rejected
  with an \<^verbatim>\<open>UnsupportedModelVersionError\<close> carrying its version, provider and model
  id, and nothing has happened by then: no span was started and \<^verbatim>\<open>doEmbed\<close> was not
  called, the list of events is the one the call started with.
\<close>

theorem embed_rejects_other_versions:
  assumes "specificationVersion model \<noteq> ''v2''"
  shows "embed model v opts maxRetriesArg signal hdrs log =
           (Inl (UnsupportedModelVersionError (specificationVersion model) (provider model) (modelId model)), log)"
  using assms by (simp add: embed_def)






theorem embed_rejects_other_versions_witness:
  "specificationVersion (constant_model\<lparr>specificationVersion := ''v1''\<rparr>) \<noteq> ''v2'' \<and>
   embed (constant_model\<lparr>specificationVersion := ''v1''\<rparr>) (JStr ''sunny day'') JUndefined None JUndefined JUndefined []
     = (Inl (UnsupportedModelVersionError ''v1'' ''provider'' ''model''), [])"
proof -
  have h: "specificationVersion (constant_model\<lparr>specificationVersion := ''v1''\<rparr>) \<noteq> ''v2''"
    by (simp add: constant_model_def)
  show ?thesis
    using h embed_rejects_other_versions [OF h, of "JStr ''sunny day''" JUndefined None JUndefined JUndefined "[]"]
    by (simp add: constant_model_def)
qed


end
